theory Spec2Isabelle
  imports Main "HOL-Library.Word" "HOL-Library.Sublist"
begin

section \<open>JavaScript strings\<close>

text \<open>
  A JavaScript string is a sequence of UTF-16 code units; \<open>length\<close>, \<open>slice\<close>,
  \<open>indexOf\<close> and the regular expressions of the sources (none has the \<open>u\<close> flag)
  all count code units. The check mark of the default status symbols is the single
  code unit \<open>0x2713\<close>.
\<close>

type_synonym jschar = "16 word"
type_synonym jsstring = "jschar list"

definition asc :: "string \<Rightarrow> jsstring" where
  "asc s = map of_char s"

definition LF :: jschar where "LF = 0x0A"
definition CR :: jschar where "CR = 0x0D"
definition TAB :: jschar where "TAB = 0x09"
definition SP :: jschar where "SP = 0x20"
definition BSL :: jschar where "BSL = 0x5C"

text \<open>The class \<open>\s\<close> of a JavaScript regular expression, which is also what
  \<open>trim\<close> and \<open>trimEnd\<close> remove: WhiteSpace and LineTerminator.\<close>

definition isWhiteSpace :: "jschar \<Rightarrow> bool" where
  "isWhiteSpace c \<longleftrightarrow>
     c = 0x09 \<or> c = 0x0A \<or> c = 0x0B \<or> c = 0x0C \<or> c = 0x0D \<or> c = 0x20 \<or> c = 0xA0 \<or>
     c = 0x1680 \<or> (0x2000 \<le> c \<and> c \<le> 0x200A) \<or> c = 0x2028 \<or> c = 0x2029 \<or>
     c = 0x202F \<or> c = 0x205F \<or> c = 0x3000 \<or> c = 0xFEFF"

text \<open>The class \<open>[\u0000-\u001F\u007F]\<close> of \<open>normalizeHinweis\<close>.\<close>

definition isControl :: "jschar \<Rightarrow> bool" where
  "isControl c \<longleftrightarrow> c \<le> 0x1F \<or> c = 0x7F"

text \<open>The class \<open>\d\<close>.\<close>

definition isDigit :: "jschar \<Rightarrow> bool" where
  "isDigit c \<longleftrightarrow> 0x30 \<le> c \<and> c \<le> 0x39"

text \<open>The line terminators, which \<open>.\<close> does not match.\<close>

definition isLineTerminator :: "jschar \<Rightarrow> bool" where
  "isLineTerminator c \<longleftrightarrow> c = 0x0A \<or> c = 0x0D \<or> c = 0x2028 \<or> c = 0x2029"

definition trimStart :: "jsstring \<Rightarrow> jsstring" where
  "trimStart s = dropWhile isWhiteSpace s"

definition trimEnd :: "jsstring \<Rightarrow> jsstring" where
  "trimEnd s = rev (dropWhile isWhiteSpace (rev s))"

definition trim :: "jsstring \<Rightarrow> jsstring" where
  "trim s = trimStart (trimEnd s)"

definition startsWith :: "jsstring \<Rightarrow> jsstring \<Rightarrow> bool" where
  "startsWith s p \<longleftrightarrow> take (length p) s = p"

text \<open>\<open>s.indexOf(p)\<close>: the first position where \<open>p\<close> occurs, \<open>None\<close> for \<open>-1\<close>.\<close>

fun indexOf :: "jsstring \<Rightarrow> jsstring \<Rightarrow> nat option" where
  "indexOf [] p = (if p = [] then Some 0 else None)"
| "indexOf (x # xs) p =
     (if startsWith (x # xs) p then Some 0
      else (case indexOf xs p of None \<Rightarrow> None | Some i \<Rightarrow> Some (Suc i)))"

definition includes_str :: "jsstring \<Rightarrow> jsstring \<Rightarrow> bool" where
  "includes_str s p \<longleftrightarrow> indexOf s p \<noteq> None"

text \<open>\<open>xs.join(sep)\<close>.\<close>

fun join :: "jsstring \<Rightarrow> jsstring list \<Rightarrow> jsstring" where
  "join sep [] = []"
| "join sep [x] = x"
| "join sep (x # y # ys) = x @ sep @ join sep (y # ys)"

subsection \<open>Global replacement and splitting\<close>

text \<open>
  A pattern is given by its matcher: \<open>m s\<close> is the length of the match of the pattern
  at the start of \<open>s\<close>, and \<open>0\<close> when it does not match there (no pattern of the
  sources matches the empty string). \<open>s.replace(/p/g, rep)\<close> and \<open>s.split(p)\<close> scan
  from the left and resume after each match.
\<close>

type_synonym matcher = "jsstring \<Rightarrow> nat"

function replaceMatches :: "matcher \<Rightarrow> jsstring \<Rightarrow> jsstring \<Rightarrow> jsstring" where
  "replaceMatches m rep [] = []"
| "replaceMatches m rep (x # xs) =
     (if m (x # xs) = 0 then x # replaceMatches m rep xs
      else rep @ replaceMatches m rep (drop (m (x # xs)) (x # xs)))"
  by pat_completeness auto
termination
  by (relation "measure (\<lambda>(m, rep, s). length s)") auto

function splitFrom :: "matcher \<Rightarrow> jsstring \<Rightarrow> jsstring \<Rightarrow> jsstring list" where
  "splitFrom m cur [] = [cur]"
| "splitFrom m cur (x # xs) =
     (if m (x # xs) = 0 then splitFrom m (cur @ [x]) xs
      else cur # splitFrom m [] (drop (m (x # xs)) (x # xs)))"
  by pat_completeness auto
termination
  by (relation "measure (\<lambda>(m, cur, s). length s)") auto

definition splitMatches :: "matcher \<Rightarrow> jsstring \<Rightarrow> jsstring list" where
  "splitMatches m s = splitFrom m [] s"

text \<open>The matcher of a literal, non-empty pattern.\<close>

definition lit :: "jsstring \<Rightarrow> matcher" where
  "lit p s = (if p \<noteq> [] \<and> startsWith s p then length p else 0)"

text \<open>\<open>s.split(sep)\<close> with a string separator; the empty separator splits into
  code units.\<close>

definition split :: "jsstring \<Rightarrow> jsstring \<Rightarrow> jsstring list" where
  "split s sep = (if sep = [] then map (\<lambda>c. [c]) s else splitMatches (lit sep) s)"

text \<open>The matcher of a character class, and of \<open>\s+\<close>.\<close>

definition charClass :: "(jschar \<Rightarrow> bool) \<Rightarrow> matcher" where
  "charClass P s = (case s of [] \<Rightarrow> 0 | c # _ \<Rightarrow> if P c then 1 else 0)"

definition whiteSpaceRun :: matcher where
  "whiteSpaceRun s = length (takeWhile isWhiteSpace s)"

section \<open>Text escaping\<close>

text \<open>The matcher of \<open>/\\n/gi\<close>: a backslash followed by \<open>n\<close> or \<open>N\<close>.\<close>

definition backslashN :: matcher where
  "backslashN s = (case s of a # b # _ \<Rightarrow> if a = BSL \<and> (b = 0x6E \<or> b = 0x4E) then 2 else 0
                   | _ \<Rightarrow> 0)"

definition unescapeIcsText :: "jsstring \<Rightarrow> jsstring" where
  "unescapeIcsText v =
     replaceMatches (lit [BSL, BSL]) [BSL]
       (replaceMatches (lit [BSL, 0x3B]) [0x3B]
         (replaceMatches (lit [BSL, 0x2C]) [0x2C]
           (replaceMatches backslashN [LF] v)))"

definition escapeIcsText :: "jsstring \<Rightarrow> jsstring" where
  "escapeIcsText v =
     replaceMatches (lit [0x3B]) [BSL, 0x3B]
       (replaceMatches (lit [0x2C]) [BSL, 0x2C]
         (replaceMatches (lit [LF]) [BSL, 0x6E]
           (replaceMatches (lit [BSL]) [BSL, BSL] v)))"

section \<open>Platform functions\<close>

text \<open>
  \<open>String.prototype.normalize\<close>, \<open>toUpperCase\<close> and \<open>toLowerCase\<close> are functions of
  the JavaScript runtime, driven by the Unicode tables; they are parameters of the model.
\<close>

record platform =
  normalizeNFKC :: "jsstring \<Rightarrow> jsstring"
  toUpperCase :: "jsstring \<Rightarrow> jsstring"
  toLowerCase :: "jsstring \<Rightarrow> jsstring"

text \<open>
  On ASCII text the three functions are these: NFKC changes nothing, and only the
  letters \<open>a\<close> to \<open>z\<close> and \<open>A\<close> to \<open>Z\<close> change case. The model is evaluated on
  concrete ASCII inputs with them.
\<close>

definition asciiUpper :: "jschar \<Rightarrow> jschar" where
  "asciiUpper c = (if 0x61 \<le> c \<and> c \<le> 0x7A then c - 0x20 else c)"

definition asciiLower :: "jschar \<Rightarrow> jschar" where
  "asciiLower c = (if 0x41 \<le> c \<and> c \<le> 0x5A then c + 0x20 else c)"

definition asciiPlatform :: platform where
  "asciiPlatform =
     \<lparr> normalizeNFKC = (\<lambda>s. s), toUpperCase = map asciiUpper, toLowerCase = map asciiLower \<rparr>"

text \<open>\<open>String(n)\<close> and template interpolation of an integer.\<close>

fun digitsOf :: "nat \<Rightarrow> jsstring" where
  "digitsOf n =
     (if n < 10 then [0x30 + of_nat n] else digitsOf (n div 10) @ [0x30 + of_nat (n mod 10)])"

declare digitsOf.simps [simp del]

definition numberToString :: "int \<Rightarrow> jsstring" where
  "numberToString i = (if i < 0 then 0x2D # digitsOf (nat (- i)) else digitsOf (nat i))"

text \<open>\<open>Number(s)\<close> on a string of decimal digits (exact below \<open>2^53\<close>).\<close>

definition digitsToNumber :: "jsstring \<Rightarrow> nat" where
  "digitsToNumber ds = foldl (\<lambda>n c. 10 * n + unat (c - 0x30)) 0 ds"

text \<open>\<open>xs.findIndex(p)\<close>, where \<open>p\<close> sees the element and its index.\<close>

fun findIndexFrom :: "('a \<Rightarrow> nat \<Rightarrow> bool) \<Rightarrow> nat \<Rightarrow> 'a list \<Rightarrow> nat option" where
  "findIndexFrom p i [] = None"
| "findIndexFrom p i (x # xs) = (if p x i then Some i else findIndexFrom p (Suc i) xs)"

definition findIndex :: "('a \<Rightarrow> nat \<Rightarrow> bool) \<Rightarrow> 'a list \<Rightarrow> nat option" where
  "findIndex p xs = findIndexFrom p 0 xs"

text \<open>\<open>xs.slice(a, b)\<close> for indices that are not negative.\<close>

definition slice :: "nat \<Rightarrow> nat \<Rightarrow> 'a list \<Rightarrow> 'a list" where
  "slice a b xs = take (b - a) (drop a xs)"

section \<open>Tasks: configuration and data\<close>

record StatusSymbolPaar =
  sym_freigegeben :: jsstring
  sym_gesperrt :: jsstring

record StatusSymbole =
  nichtBegonnen :: StatusSymbolPaar
  erledigt :: StatusSymbolPaar

record TaskModifierConfig =
  descriptionTrennzeichen :: jsstring
  hinweisTrennzeichen :: "jsstring option"
  statusSymbole :: StatusSymbole
  summaryTrennzeichen :: jsstring
  summaryInhalt :: "jsstring list"

text \<open>\<open>readModifierConfig(undefined)\<close>: every default.\<close>

definition defaultModifierConfig :: TaskModifierConfig where
  "defaultModifierConfig =
     \<lparr> descriptionTrennzeichen = [LF],
       hinweisTrennzeichen = Some (asc ''##''),
       statusSymbole =
         \<lparr> nichtBegonnen = \<lparr> sym_freigegeben = asc ''*'', sym_gesperrt = asc ''.*'' \<rparr>,
           erledigt = \<lparr> sym_freigegeben = [0x2713], sym_gesperrt = [0x2E, 0x2713] \<rparr> \<rparr>,
       summaryTrennzeichen = asc ''//'',
       summaryInhalt = [] \<rparr>"

record ParsedUnteraufgabe =
  symbol :: jsstring
  p_status :: bool
  p_freigegeben :: bool
  p_titel :: jsstring
  p_hinweis :: "jsstring option"
  raw :: jsstring

record ParsedSummary =
  summary_raw :: jsstring
  teile :: "jsstring list"
  felder :: "jsstring \<rightharpoonup> jsstring"

record ParsedTask =
  sourceFile :: "jsstring option"
  uid :: "jsstring option"
  created :: "jsstring option"
  dtStamp :: "jsstring option"
  due :: "jsstring option"
  start :: "jsstring option"
  task_status :: "jsstring option"
  summary :: ParsedSummary
  descriptionRaw :: jsstring
  unteraufgaben :: "ParsedUnteraufgabe list"
  properties :: "jsstring \<rightharpoonup> jsstring"

record UnteraufgabeUpdateInput =
  titel :: jsstring
  status :: bool
  freigegeben :: "bool option"
  hinweis :: "jsstring option"

record UnteraufgabePatch =
  patch_status :: "bool option"
  patch_hinweis :: "jsstring option"

section \<open>Tasks: hints\<close>

definition getHinweisSeparator :: "TaskModifierConfig \<Rightarrow> jsstring option" where
  "getHinweisSeparator cfg =
     (case hinweisTrennzeichen cfg of
        None \<Rightarrow> None
      | Some r \<Rightarrow> (let raw = trim r in if raw = [] then None else Some (SP # raw @ [SP])))"

text \<open>The four configured status symbols.\<close>

definition statusSymbolStrings :: "TaskModifierConfig \<Rightarrow> jsstring list" where
  "statusSymbolStrings cfg =
     [sym_freigegeben (nichtBegonnen (statusSymbole cfg)),
      sym_gesperrt (nichtBegonnen (statusSymbole cfg)),
      sym_freigegeben (erledigt (statusSymbole cfg)),
      sym_gesperrt (erledigt (statusSymbole cfg))]"

text \<open>The comparator \<open>(a, b) => b.length - a.length\<close> of a stable sort.\<close>

definition sortByLengthDesc :: "('a \<Rightarrow> jsstring) \<Rightarrow> 'a list \<Rightarrow> 'a list" where
  "sortByLengthDesc f xs = sort_key (\<lambda>x. - int (length (f x))) xs"

definition getSteuerzeichenTokens :: "TaskModifierConfig \<Rightarrow> jsstring list" where
  "getSteuerzeichenTokens cfg =
     sortByLengthDesc (\<lambda>t. t)
       (filter (\<lambda>t. t \<noteq> [])
         (List.map_filter (\<lambda>t. t)
           [Some (sym_freigegeben (nichtBegonnen (statusSymbole cfg))),
            Some (sym_gesperrt (nichtBegonnen (statusSymbole cfg))),
            Some (sym_freigegeben (erledigt (statusSymbole cfg))),
            Some (sym_gesperrt (erledigt (statusSymbole cfg))),
            map_option trim (hinweisTrennzeichen cfg),
            Some (descriptionTrennzeichen cfg)]))"

definition normalizeHinweis :: "platform \<Rightarrow> TaskModifierConfig \<Rightarrow> jsstring \<Rightarrow> jsstring" where
  "normalizeHinweis P cfg h =
     (let n0 = replaceMatches (charClass isControl) [SP] (normalizeNFKC P h);
          n1 = fold (\<lambda>token n. join [SP] (split n token)) (getSteuerzeichenTokens cfg) n0;
          n2 = trim (replaceMatches whiteSpaceRun [SP] n1)
      in if length n2 > 20 then trimEnd (take 20 n2) else n2)"

section \<open>Tasks: the subtask list in DESCRIPTION\<close>

definition toSymbol :: "TaskModifierConfig \<Rightarrow> bool \<Rightarrow> bool \<Rightarrow> jsstring" where
  "toSymbol cfg st fr =
     (if \<not> st \<and> \<not> fr then sym_gesperrt (nichtBegonnen (statusSymbole cfg))
      else if st \<and> \<not> fr then sym_gesperrt (erledigt (statusSymbole cfg))
      else if \<not> st then sym_freigegeben (nichtBegonnen (statusSymbole cfg))
      else sym_freigegeben (erledigt (statusSymbole cfg)))"

definition buildUnteraufgabeText :: "TaskModifierConfig \<Rightarrow> UnteraufgabeUpdateInput \<Rightarrow> jsstring" where
  "buildUnteraufgabeText cfg item =
     (let t = trim (titel item);
          h = trim (case hinweis item of None \<Rightarrow> [] | Some x \<Rightarrow> x)
      in case getHinweisSeparator cfg of
           None \<Rightarrow> t
         | Some separator \<Rightarrow> if h = [] then t else t @ separator @ h)"

definition buildDescriptionValue ::
    "TaskModifierConfig \<Rightarrow> UnteraufgabeUpdateInput list \<Rightarrow> jsstring" where
  "buildDescriptionValue cfg items =
     join (descriptionTrennzeichen cfg)
       (map (\<lambda>item.
              trim (toSymbol cfg (status item)
                      (case freigegeben item of None \<Rightarrow> True | Some f \<Rightarrow> f)
                    @ [SP] @ buildUnteraufgabeText cfg item))
            items)"

text \<open>The four candidates of \<open>parseStatusPrefix\<close>: symbol, status, freigegeben.\<close>

definition statusCandidates :: "TaskModifierConfig \<Rightarrow> (jsstring \<times> bool \<times> bool) list" where
  "statusCandidates cfg =
     sortByLengthDesc fst
       [(sym_gesperrt (nichtBegonnen (statusSymbole cfg)), False, False),
        (sym_gesperrt (erledigt (statusSymbole cfg)), True, False),
        (sym_freigegeben (nichtBegonnen (statusSymbole cfg)), False, True),
        (sym_freigegeben (erledigt (statusSymbole cfg)), True, True)]"

text \<open>The result of \<open>parseStatusPrefix\<close>: symbol, status, freigegeben, inhalt.\<close>

definition parseStatusPrefix ::
    "TaskModifierConfig \<Rightarrow> jsstring \<Rightarrow> jsstring \<times> bool \<times> bool \<times> jsstring" where
  "parseStatusPrefix cfg rawPart =
     (case find (\<lambda>c. startsWith rawPart (fst c)) (statusCandidates cfg) of
        Some (sy, st, fr) \<Rightarrow> (sy, st, fr, trim (drop (length sy) rawPart))
      | None \<Rightarrow> ([], False, True, trim rawPart))"

definition splitTitelUndHinweis ::
    "platform \<Rightarrow> TaskModifierConfig \<Rightarrow> jsstring \<Rightarrow> jsstring \<times> jsstring option" where
  "splitTitelUndHinweis P cfg text =
     (case getHinweisSeparator cfg of
        None \<Rightarrow> (trim text, None)
      | Some separator \<Rightarrow>
          (case indexOf text separator of
             None \<Rightarrow> (trim text, None)
           | Some separatorIndex \<Rightarrow>
               (let h = normalizeHinweis P cfg (drop (separatorIndex + length separator) text)
                in (trim (take separatorIndex text), if h = [] then None else Some h))))"

text \<open>The matcher of \<open>/\s*\n\s*/\<close>: a run of white space that holds a line feed.\<close>

definition paddedNewline :: matcher where
  "paddedNewline s =
     (let w = takeWhile isWhiteSpace s in if LF \<in> set w then length w else 0)"

definition parseUnteraufgaben ::
    "platform \<Rightarrow> TaskModifierConfig \<Rightarrow> jsstring \<Rightarrow> ParsedUnteraufgabe list" where
  "parseUnteraufgaben P cfg descRaw =
     (let text = trim (replaceMatches (lit [CR, LF]) [LF]
                        (replaceMatches (lit [BSL, 0x6E]) [LF] descRaw))
      in if text = [] then []
         else
           map (\<lambda>rawPart.
                 (case parseStatusPrefix cfg rawPart of
                    (sy, st, fr, inhalt) \<Rightarrow>
                      (case splitTitelUndHinweis P cfg inhalt of
                         (t, h) \<Rightarrow>
                           \<lparr> symbol = sy, p_status = st, p_freigegeben = fr,
                             p_titel = t, p_hinweis = h, raw = rawPart \<rparr>)))
             (filter (\<lambda>rawPart. rawPart \<noteq> [])
               (map trim
                 (if includes_str (descriptionTrennzeichen cfg) [LF]
                  then splitMatches paddedNewline text
                  else split text (descriptionTrennzeichen cfg)))))"

section \<open>Tasks: the calendar file\<close>

definition unfoldStep :: "jsstring list \<Rightarrow> jsstring \<Rightarrow> jsstring list" where
  "unfoldStep unfolded line =
     (if (startsWith line [SP] \<or> startsWith line [TAB]) \<and> unfolded \<noteq> []
      then butlast unfolded @ [last unfolded @ drop 1 line]
      else unfolded @ [line])"

definition unfoldIcsLines :: "jsstring \<Rightarrow> jsstring list" where
  "unfoldIcsLines content =
     foldl unfoldStep [] (split (replaceMatches (lit [CR, LF]) [LF] content) [LF])"

text \<open>
  The folded form of a logical line, in the words of the spec: the first physical line,
  then the continuation lines, each after a newline (\<open>LF\<close> or \<open>CR LF\<close>) and made of
  one space or tab followed by the continued text. The sources only unfold.
\<close>

definition folded :: "jsstring \<Rightarrow> jsstring \<Rightarrow> (jschar \<times> jsstring) list \<Rightarrow> jsstring" where
  "folded nl first conts = first @ concat (map (\<lambda>(w, p). nl @ w # p) conts)"

definition BEGIN_VTODO :: jsstring where "BEGIN_VTODO = asc ''BEGIN:VTODO''"
definition END_VTODO :: jsstring where "END_VTODO = asc ''END:VTODO''"

text \<open>The first loop of \<open>parseIcsProperties\<close>, with its flag \<open>insideVtodo\<close>; the
  \<open>break\<close> ends the recursion.\<close>

fun collectVtodo :: "bool \<Rightarrow> jsstring list \<Rightarrow> jsstring list" where
  "collectVtodo insideVtodo [] = []"
| "collectVtodo insideVtodo (line # rest) =
     (if line = BEGIN_VTODO then collectVtodo True rest
      else if line = END_VTODO then []
      else if insideVtodo then line # collectVtodo insideVtodo rest
      else collectVtodo insideVtodo rest)"

text \<open>\<open>left.split(";", 1)[0]\<close>.\<close>

definition firstField :: "jsstring \<Rightarrow> jsstring" where
  "firstField left = (case split left [0x3B] of [] \<Rightarrow> [] | x # _ \<Rightarrow> x)"

text \<open>The key of a line: \<open>None\<close> where the loops skip the line
  (\<open>separatorIndex <= 0\<close>).\<close>

definition lineKey :: "platform \<Rightarrow> jsstring \<Rightarrow> jsstring option" where
  "lineKey P line =
     (case indexOf line [0x3A] of
        None \<Rightarrow> None
      | Some separatorIndex \<Rightarrow>
          if separatorIndex = 0 then None
          else Some (toUpperCase P (firstField (take separatorIndex line))))"

definition lineValue :: "jsstring \<Rightarrow> jsstring" where
  "lineValue line =
     (case indexOf line [0x3A] of None \<Rightarrow> [] | Some separatorIndex \<Rightarrow> drop (separatorIndex + 1) line)"

definition propsStep ::
    "platform \<Rightarrow> (jsstring \<rightharpoonup> jsstring) \<Rightarrow> jsstring \<Rightarrow> (jsstring \<rightharpoonup> jsstring)" where
  "propsStep P props line =
     (case lineKey P line of
        None \<Rightarrow> props
      | Some key \<Rightarrow> props(key \<mapsto> unescapeIcsText (lineValue line)))"

text \<open>The second loop of \<open>parseIcsProperties\<close>.\<close>

definition propertiesOfLines :: "platform \<Rightarrow> jsstring list \<Rightarrow> (jsstring \<rightharpoonup> jsstring)" where
  "propertiesOfLines P inVtodo = foldl (propsStep P) Map.empty inVtodo"

definition parseIcsProperties :: "platform \<Rightarrow> jsstring \<Rightarrow> (jsstring \<rightharpoonup> jsstring)" where
  "parseIcsProperties P content =
     propertiesOfLines P (collectVtodo False (unfoldIcsLines content))"

definition getVtodoBounds :: "jsstring list \<Rightarrow> (nat \<times> nat) option" where
  "getVtodoBounds lines =
     (case findIndex (\<lambda>line index. line = BEGIN_VTODO) lines of
        None \<Rightarrow> None
      | Some beginIdx \<Rightarrow>
          (case findIndex (\<lambda>line index. index > beginIdx \<and> line = END_VTODO) lines of
             None \<Rightarrow> None
           | Some endIdx \<Rightarrow> Some (beginIdx, endIdx)))"

text \<open>\<open>upsertProperty\<close> changes the array in place; the model returns the new array.\<close>

definition upsertProperty ::
    "platform \<Rightarrow> jsstring list \<Rightarrow> jsstring \<Rightarrow> jsstring \<Rightarrow> jsstring list" where
  "upsertProperty P lines key v =
     (let keyUpper = toUpperCase P key;
          newLine = keyUpper @ [0x3A] @ v
      in case findIndex (\<lambda>line index. lineKey P line = Some keyUpper) lines of
           Some index \<Rightarrow> lines[index := newLine]
         | None \<Rightarrow> lines @ [newLine])"

definition felderVon :: "jsstring list \<Rightarrow> jsstring list \<Rightarrow> (jsstring \<rightharpoonup> jsstring)" where
  "felderVon keys ts =
     fold (\<lambda>(key, index) acc. acc(key \<mapsto> (if index < length ts then ts ! index else [])))
       (zip keys [0 ..< length keys]) Map.empty"

definition parseSummary :: "TaskModifierConfig \<Rightarrow> jsstring \<Rightarrow> ParsedSummary" where
  "parseSummary cfg summaryRaw =
     (let ts = filter (\<lambda>item. item \<noteq> []) (map trim (split summaryRaw (summaryTrennzeichen cfg)))
      in \<lparr> summary_raw = summaryRaw, teile = ts, felder = felderVon (summaryInhalt cfg) ts \<rparr>)"

definition parseTaskFromIcsContent ::
    "platform \<Rightarrow> TaskModifierConfig \<Rightarrow> jsstring \<Rightarrow> jsstring option \<Rightarrow> ParsedTask" where
  "parseTaskFromIcsContent P cfg content file =
     (let props = parseIcsProperties P content;
          summaryRaw = (case props (asc ''SUMMARY'') of None \<Rightarrow> [] | Some x \<Rightarrow> x);
          descRaw = (case props (asc ''DESCRIPTION'') of None \<Rightarrow> [] | Some x \<Rightarrow> x)
      in \<lparr> sourceFile = file,
           uid = props (asc ''UID''),
           created = props (asc ''CREATED''),
           dtStamp = props (asc ''DTSTAMP''),
           due = props (asc ''DUE''),
           start = props (asc ''DTSTART''),
           task_status = props (asc ''STATUS''),
           summary = parseSummary cfg summaryRaw,
           descriptionRaw = descRaw,
           unteraufgaben = parseUnteraufgaben P cfg descRaw,
           properties = props \<rparr>)"

section \<open>Tasks: reading and writing files\<close>

text \<open>
  The file system maps a path to the content of the file there. A missing file makes
  \<open>readFile\<close> reject; the clock reading \<open>new Date()\<close> is an input, in its UTC fields.
\<close>

type_synonym filesystem = "jsstring \<rightharpoonup> jsstring"

datatype error = Error jsstring | IOError jsstring

record utcDate =
  utcFullYear :: nat
  utcMonth :: nat
  utcDate :: nat
  utcHours :: nat
  utcMinutes :: nat
  utcSeconds :: nat

definition pad :: "nat \<Rightarrow> jsstring" where
  "pad n = (let s = digitsOf n in replicate (2 - length s) 0x30 @ s)"

definition toUtcTimestamp :: "utcDate \<Rightarrow> jsstring" where
  "toUtcTimestamp d =
     digitsOf (utcFullYear d) @ pad (utcMonth d + 1) @ pad (utcDate d) @ [0x54] @
     pad (utcHours d) @ pad (utcMinutes d) @ pad (utcSeconds d) @ [0x5A]"

definition readTaskFromFile ::
    "platform \<Rightarrow> TaskModifierConfig \<Rightarrow> filesystem \<Rightarrow> jsstring \<Rightarrow> error + ParsedTask" where
  "readTaskFromFile P cfg fs filePath =
     (case fs filePath of
        None \<Rightarrow> Inl (IOError filePath)
      | Some content \<Rightarrow> Inr (parseTaskFromIcsContent P cfg content (Some filePath)))"

definition keineVtodo :: jsstring where
  "keineVtodo = asc ''Keine VTODO-Komponente in der ICS-Datei gefunden.''"

definition writeUnteraufgabenToFile ::
    "platform \<Rightarrow> TaskModifierConfig \<Rightarrow> utcDate \<Rightarrow> filesystem \<Rightarrow> jsstring \<Rightarrow>
     UnteraufgabeUpdateInput list \<Rightarrow> (error + ParsedTask) \<times> filesystem" where
  "writeUnteraufgabenToFile P cfg now fs filePath items =
     (case fs filePath of
        None \<Rightarrow> (Inl (IOError filePath), fs)
      | Some content \<Rightarrow>
          (let newline = (if includes_str content [CR, LF] then [CR, LF] else [LF]);
               unfoldedLines = unfoldIcsLines content
           in case getVtodoBounds unfoldedLines of
                None \<Rightarrow> (Inl (Error keineVtodo), fs)
              | Some (beginIdx, endIdx) \<Rightarrow>
                  (let nowUtc = toUtcTimestamp now;
                       vtodoLines0 = slice (beginIdx + 1) endIdx unfoldedLines;
                       descriptionValue = buildDescriptionValue cfg items;
                       vtodoLines1 = upsertProperty P vtodoLines0 (asc ''DESCRIPTION'')
                                       (escapeIcsText descriptionValue);
                       vtodoLines2 = upsertProperty P vtodoLines1 (asc ''DTSTAMP'') nowUtc;
                       vtodoLines3 = upsertProperty P vtodoLines2 (asc ''LAST-MODIFIED'') nowUtc;
                       updatedLines = slice 0 (beginIdx + 1) unfoldedLines @ vtodoLines3 @
                                      drop endIdx unfoldedLines;
                       updatedContent = join newline updatedLines @ newline
                   in (Inr (parseTaskFromIcsContent P cfg updatedContent (Some filePath)),
                       fs(filePath \<mapsto> updatedContent)))))"

definition indexAusserhalb :: "int \<Rightarrow> jsstring" where
  "indexAusserhalb i =
     asc ''Unteraufgabe Index '' @ numberToString i @ asc '' ist au'' @ [0xDF] @
     asc ''erhalb des g'' @ [0xFC] @ asc ''ltigen Bereichs.''"

text \<open>The index is an integer here (the PATCH handler rejects every other number).\<close>

definition updateUnteraufgabeInFile ::
    "platform \<Rightarrow> TaskModifierConfig \<Rightarrow> utcDate \<Rightarrow> filesystem \<Rightarrow> jsstring \<Rightarrow> int \<Rightarrow>
     UnteraufgabePatch \<Rightarrow> (error + ParsedTask) \<times> filesystem" where
  "updateUnteraufgabeInFile P cfg now fs filePath unteraufgabeIndex patch =
     (case readTaskFromFile P cfg fs filePath of
        Inl e \<Rightarrow> (Inl e, fs)
      | Inr parsed \<Rightarrow>
          (let items = map (\<lambda>item. \<lparr> titel = p_titel item, status = p_status item,
                                    freigegeben = Some (p_freigegeben item),
                                    hinweis = p_hinweis item \<rparr>)
                         (unteraufgaben parsed)
           in if unteraufgabeIndex < 0 \<or> unteraufgabeIndex \<ge> int (length items)
              then (Inl (Error (indexAusserhalb unteraufgabeIndex)), fs)
              else
                (let i = nat unteraufgabeIndex;
                     nextHinweis = (case patch_hinweis patch of
                                      None \<Rightarrow> hinweis (items ! i)
                                    | Some h \<Rightarrow> Some (normalizeHinweis P cfg h))
                 in writeUnteraufgabenToFile P cfg now fs filePath
                      (items[i := (items ! i)
                         \<lparr> status := (case patch_status patch of
                                        None \<Rightarrow> status (items ! i) | Some s \<Rightarrow> s),
                           hinweis := (case nextHinweis of
                                         None \<Rightarrow> None
                                       | Some h \<Rightarrow> if h = [] then None else Some h) \<rparr>]))))"


section \<open>Stammdaten\<close>

record TypDatensatz =
  typ_ID :: int
  typ_Name :: jsstring

record BereichDatensatz =
  bereich_Typ_ID :: int
  bereich_ID :: int
  bereich_Haus_ID :: int
  Eingang :: jsstring
  Lage :: jsstring
  bereich_Person_ID :: "int list"

text \<open>Of the five collections, the lookups by label read \<open>Typ\<close> and \<open>Bereich\<close>.\<close>

record StammdatenBereich =
  Typ :: "TypDatensatz list"
  Bereich :: "BereichDatensatz list"

definition bereichKey :: "int \<Rightarrow> int \<Rightarrow> jsstring" where
  "bereichKey typId bereichId = numberToString typId @ [0x3A] @ numberToString bereichId"

definition normalizeTypName :: "platform \<Rightarrow> jsstring \<Rightarrow> jsstring" where
  "normalizeTypName P typName = toLowerCase P (trim typName)"

text \<open>The indexes that \<open>rebuildIndexes\<close> fills: a later entry replaces an earlier one
  under the same key.\<close>

definition typByName :: "platform \<Rightarrow> StammdatenBereich \<Rightarrow> (jsstring \<rightharpoonup> TypDatensatz)" where
  "typByName P d = fold (\<lambda>t m. m(normalizeTypName P (typ_Name t) \<mapsto> t)) (Typ d) Map.empty"

definition bereichByKey :: "StammdatenBereich \<Rightarrow> (jsstring \<rightharpoonup> BereichDatensatz)" where
  "bereichByKey d =
     fold (\<lambda>b m. m(bereichKey (bereich_Typ_ID b) (bereich_ID b) \<mapsto> b)) (Bereich d) Map.empty"

definition getBereichByKey :: "StammdatenBereich \<Rightarrow> int \<Rightarrow> int \<Rightarrow> BereichDatensatz option" where
  "getBereichByKey d typId bereichId = bereichByKey d (bereichKey typId bereichId)"

definition getBereichByTypNameUndId ::
    "platform \<Rightarrow> StammdatenBereich \<Rightarrow> jsstring \<Rightarrow> int \<Rightarrow> BereichDatensatz option" where
  "getBereichByTypNameUndId P d typName bereichId =
     (case typByName P d (normalizeTypName P typName) of
        None \<Rightarrow> None
      | Some t \<Rightarrow> getBereichByKey d (typ_ID t) bereichId)"

text \<open>The matcher of \<open>/[)"']+$/\<close>: a run of closing characters that reaches the end.\<close>

definition isClosing :: "jschar \<Rightarrow> bool" where
  "isClosing c \<longleftrightarrow> c = 0x29 \<or> c = 0x22 \<or> c = 0x27"

definition closingRunAtEnd :: matcher where
  "closingRunAtEnd s = (if list_all isClosing s then length s else 0)"

text \<open>
  \<open>segment.match(/^(.*)\s+(\d+)$/)\<close>: the first group is greedy, so the longest prefix
  without a line terminator after which only white space and then only digits follow,
  both at least once, up to the end. The result is the pair of the two groups.
\<close>

definition restMatches :: "jsstring \<Rightarrow> bool" where
  "restMatches r \<longleftrightarrow>
     takeWhile isWhiteSpace r \<noteq> [] \<and> dropWhile isWhiteSpace r \<noteq> [] \<and>
     list_all isDigit (dropWhile isWhiteSpace r)"

fun matchDownFrom :: "nat \<Rightarrow> jsstring \<Rightarrow> (jsstring \<times> jsstring) option" where
  "matchDownFrom 0 seg =
     (if restMatches seg then Some ([], dropWhile isWhiteSpace seg) else None)"
| "matchDownFrom (Suc k) seg =
     (if restMatches (drop (Suc k) seg)
      then Some (take (Suc k) seg, dropWhile isWhiteSpace (drop (Suc k) seg))
      else matchDownFrom k seg)"

definition matchTypNameId :: "jsstring \<Rightarrow> (jsstring \<times> jsstring) option" where
  "matchTypNameId seg =
     matchDownFrom (length (takeWhile (\<lambda>c. \<not> isLineTerminator c) seg)) seg"

definition getBereichByBezeichnung ::
    "platform \<Rightarrow> StammdatenBereich \<Rightarrow> jsstring \<Rightarrow> BereichDatensatz option" where
  "getBereichByBezeichnung P d bezeichnung =
     (let normalized = replaceMatches closingRunAtEnd []
                         (replaceMatches whiteSpaceRun [SP] (trim bezeichnung));
          segment = (if includes_str normalized (asc ''-'')
                     then (case split normalized (asc ''-'') of
                             [] \<Rightarrow> normalized
                           | ps \<Rightarrow> trim (last ps))
                     else normalized)
      in case matchTypNameId segment of
           None \<Rightarrow> None
         | Some (typName, bereichId) \<Rightarrow>
             getBereichByTypNameUndId P d typName (int (digitsToNumber bereichId)))"

section \<open>Notions of the proofs\<close>

text \<open>One round of the loop over the tokens in \<open>normalizeHinweis\<close>.\<close>

definition removeToken :: "jsstring \<Rightarrow> jsstring \<Rightarrow> jsstring" where
  "removeToken token n = join [SP] (split n token)"







text \<open>
  What the escaping makes of one code unit when the code units of \<open>special\<close> are the
  ones escaped besides the backslash; \<open>unescapeIcsText\<close> takes them out one pass after
  the other.
\<close>

definition escapeChar :: "jschar list \<Rightarrow> jschar \<Rightarrow> jsstring" where
  "escapeChar special x =
     (if x = BSL then [BSL, BSL]
      else if x \<in> set special then [BSL, if x = LF then 0x6E else x]
      else [x])"

section \<open>Concrete inputs\<close>

text \<open>Files, lines and records on which the model is evaluated below.\<close>

definition minimalTask :: jsstring where
  "minimalTask = asc ''BEGIN:VTODO'' @ [LF] @ asc ''UID:1'' @ [LF] @ asc ''END:VTODO''"

definition unterminatedTask :: jsstring where
  "unterminatedTask = asc ''BEGIN:VTODO'' @ [LF] @ asc ''UID:1''"

definition samplePath :: jsstring where "samplePath = asc ''data/tasks/t1.ics''"

definition sampleTask :: jsstring where
  "sampleTask = asc ''BEGIN:VCALENDAR'' @ [CR, LF] @ asc ''BEGIN:VTODO'' @ [CR, LF] @ asc ''UID:t1'' @ [CR, LF] @
        asc ''DESCRIPTION;ALTREP=x:* Bring trash'' @ [CR, LF] @ asc ''END:VTODO'' @ [CR, LF] @
        asc ''END:VCALENDAR'' @ [CR, LF]"

definition sampleNow :: utcDate where
  "sampleNow = \<lparr> utcFullYear = 2026, utcMonth = 0, utcDate = 5, utcHours = 13, utcMinutes = 4,
          utcSeconds = 0 \<rparr>"

definition samplePatch :: UnteraufgabePatch where
  "samplePatch = \<lparr> patch_status = Some True, patch_hinweis = None \<rparr>"

definition sampleLines :: "jsstring list" where
  "sampleLines = [asc ''SUMMARY:x'', asc ''Description;ALTREP=u:old'', asc ''DESCRIPTION:again'']"

definition gebaeudeA :: jsstring where
  "gebaeudeA = asc ''Geb'' @ [0xE4] @ asc ''ude A - Keller 3''"

definition sampleStammdaten :: StammdatenBereich where
  "sampleStammdaten =
     \<lparr> Typ = [\<lparr> typ_ID = 1, typ_Name = asc ''Wohnung'' \<rparr>, \<lparr> typ_ID = 2, typ_Name = asc ''Keller'' \<rparr>],
       Bereich =
         [\<lparr> bereich_Typ_ID = 1, bereich_ID = 3, bereich_Haus_ID = 1, Eingang = asc ''A'',
            Lage = asc ''EG'', bereich_Person_ID = [7] \<rparr>,
          \<lparr> bereich_Typ_ID = 2, bereich_ID = 3, bereich_Haus_ID = 1, Eingang = asc ''A'',
            Lage = asc ''UG'', bereich_Person_ID = [] \<rparr>] \<rparr>"

text \<open>A configuration whose status symbols are check boxes.\<close>

definition checkboxModifierConfig :: TaskModifierConfig where
  "checkboxModifierConfig =
     defaultModifierConfig
       \<lparr> statusSymbole :=
           \<lparr> nichtBegonnen = \<lparr> sym_freigegeben = asc ''[ ]'', sym_gesperrt = asc ''.[ ]'' \<rparr>,
             erledigt = \<lparr> sym_freigegeben = asc ''[x]'', sym_gesperrt = asc ''.[x]'' \<rparr> \<rparr> \<rparr>"

definition sampleHinweis :: jsstring where
  "sampleHinweis = asc ''see ## note * in the'' @ [TAB, 0x7F] @ asc ''cellar.* today''"



section \<open>Searching a list\<close>

lemma findIndexFrom_None:
  "findIndexFrom p k xs = None \<longleftrightarrow> (\<forall>j<length xs. \<not> p (xs ! j) (k + j))"
proof (induction xs arbitrary: k)
  case Nil
  then show ?case by simp
next
  case (Cons x xs)
  show ?case
  proof (cases "p x k")
    case True
    then show ?thesis by auto
  next
    case False
    have "(\<forall>j<length (x # xs). \<not> p ((x # xs) ! j) (k + j)) \<longleftrightarrow>
          (\<forall>j<length xs. \<not> p (xs ! j) (Suc k + j))"
      using False by (auto simp: less_Suc_eq_0_disj)
    then show ?thesis using False Cons.IH [of "Suc k"] by simp
  qed
qed

lemma findIndexFrom_Some:
  "findIndexFrom p k xs = Some n \<longleftrightarrow>
     (\<exists>j<length xs. n = k + j \<and> p (xs ! j) (k + j) \<and> (\<forall>i<j. \<not> p (xs ! i) (k + i)))"
proof (induction xs arbitrary: k)
  case Nil
  then show ?case by simp
next
  case (Cons x xs)
  show ?case
  proof (cases "p x k")
    case True
    show ?thesis
    proof
      assume "findIndexFrom p k (x # xs) = Some n"
      then have "n = k" using True by simp
      then show "\<exists>j<length (x # xs). n = k + j \<and> p ((x # xs) ! j) (k + j) \<and>
          (\<forall>i<j. \<not> p ((x # xs) ! i) (k + i))"
        using True by (intro exI [of _ 0]) simp
    next
      assume "\<exists>j<length (x # xs). n = k + j \<and> p ((x # xs) ! j) (k + j) \<and>
          (\<forall>i<j. \<not> p ((x # xs) ! i) (k + i))"
      then obtain j where j: "n = k + j" "\<forall>i<j. \<not> p ((x # xs) ! i) (k + i)" by blast
      have "j = 0"
      proof (rule ccontr)
        assume "j \<noteq> 0"
        then have "\<not> p ((x # xs) ! 0) (k + 0)" using j(2) by blast
        then show False using True by simp
      qed
      then show "findIndexFrom p k (x # xs) = Some n" using True j(1) by simp
    qed
  next
    case False
    have "(\<exists>j<length (x # xs). n = k + j \<and> p ((x # xs) ! j) (k + j) \<and>
            (\<forall>i<j. \<not> p ((x # xs) ! i) (k + i))) \<longleftrightarrow>
          (\<exists>j<length xs. n = Suc k + j \<and> p (xs ! j) (Suc k + j) \<and>
            (\<forall>i<j. \<not> p (xs ! i) (Suc k + i)))" (is "?L \<longleftrightarrow> ?R")
    proof
      assume ?L
      then obtain j where j: "j < length (x # xs)" "n = k + j" "p ((x # xs) ! j) (k + j)"
        "\<forall>i<j. \<not> p ((x # xs) ! i) (k + i)" by blast
      from j(3) False have "j \<noteq> 0" by (cases j) auto
      then obtain j' where j': "j = Suc j'" by (cases j) auto
      have "\<forall>i<j'. \<not> p (xs ! i) (Suc k + i)"
      proof (intro allI impI)
        fix i assume "i < j'"
        then have "Suc i < j" using j' by simp
        then have "\<not> p ((x # xs) ! Suc i) (k + Suc i)" using j(4) by blast
        then show "\<not> p (xs ! i) (Suc k + i)" by simp
      qed
      then show ?R using j j' by (intro exI [of _ j']) simp
    next
      assume ?R
      then obtain j where j: "j < length xs" "n = Suc k + j" "p (xs ! j) (Suc k + j)"
        "\<forall>i<j. \<not> p (xs ! i) (Suc k + i)" by blast
      have "\<forall>i<Suc j. \<not> p ((x # xs) ! i) (k + i)"
      proof (intro allI impI)
        fix i assume i: "i < Suc j"
        show "\<not> p ((x # xs) ! i) (k + i)"
        proof (cases i)
          case 0
          then show ?thesis using False by simp
        next
          case (Suc i')
          then have "i' < j" using i by simp
          then show ?thesis using j(4) Suc by simp
        qed
      qed
      then show ?L using j by (intro exI [of _ "Suc j"]) simp
    qed
    then show ?thesis using False Cons.IH [of "Suc k"] by simp
  qed
qed

lemma findIndex_None: "findIndex p xs = None \<longleftrightarrow> (\<forall>j<length xs. \<not> p (xs ! j) j)"
  by (simp add: findIndex_def findIndexFrom_None)

lemma findIndex_Some:
  "findIndex p xs = Some n \<longleftrightarrow> (n < length xs \<and> p (xs ! n) n \<and> (\<forall>i<n. \<not> p (xs ! i) i))"
  by (auto simp add: findIndex_def findIndexFrom_Some)

section \<open>Occurrences, replacement and splitting\<close>

lemma startsWith_prefix: "startsWith s p \<longleftrightarrow> prefix p s"
  by (metis startsWith_def append_eq_conv_conj prefix_def take_is_prefix)

lemma includes_sublist: "includes_str s p \<longleftrightarrow> sublist p s"
proof -
  have "indexOf s p \<noteq> None \<longleftrightarrow> sublist p s"
    by (induction s) (auto simp: startsWith_prefix sublist_Cons_right split: option.splits)
  then show ?thesis by (simp add: includes_str_def)
qed


lemma lit_eq_0: "lit p s = 0 \<longleftrightarrow> p = [] \<or> \<not> prefix p s"
  by (simp add: lit_def startsWith_prefix)

lemma lit_hit: "p \<noteq> [] \<Longrightarrow> prefix p s \<Longrightarrow> lit p s = length p"
  by (simp add: lit_def startsWith_prefix)



lemma splitFrom_not_Nil: "splitFrom m cur s \<noteq> []"
  by (induction m cur s rule: splitFrom.induct) auto

lemma join_Cons: "ys \<noteq> [] \<Longrightarrow> join sep (x # ys) = x @ sep @ join sep ys"
  by (cases ys) auto

lemma join_splitFrom: "join sep (splitFrom m cur s) = cur @ replaceMatches m sep s"
  by (induction m cur s rule: splitFrom.induct) (auto simp: join_Cons splitFrom_not_Nil)

lemma join_split: "t \<noteq> [] \<Longrightarrow> join sep (split s t) = replaceMatches (lit t) sep s"
  by (simp add: split_def splitMatches_def join_splitFrom)

lemma prefix_replaceMatches:
  "c \<notin> set t \<Longrightarrow> prefix t (replaceMatches m [c] s) \<Longrightarrow> prefix t s"
proof (induction m "[c]" s arbitrary: t rule: replaceMatches.induct)
  case (1 m)
  then show ?case by simp
next
  case (2 m x xs)
  show ?case
  proof (cases "m (x # xs) = 0")
    case True
    then have p: "prefix t (x # replaceMatches m [c] xs)" using "2.prems"(2) by simp
    show ?thesis
    proof (cases t)
      case Nil
      then show ?thesis by simp
    next
      case (Cons y t')
      then have "y = x" "prefix t' (replaceMatches m [c] xs)" using p by simp_all
      moreover have "c \<notin> set t'" using "2.prems"(1) Cons by simp
      ultimately show ?thesis using "2.hyps"(1) [OF True] Cons by simp
    qed
  next
    case False
    then have "prefix t (c # replaceMatches m [c] (drop (m (x # xs)) (x # xs)))"
      using "2.prems"(2) by simp
    then have "t = []" using "2.prems"(1) by (cases t) auto
    then show ?thesis by simp
  qed
qed

lemma sublist_replaceMatches:
  "c \<notin> set t \<Longrightarrow> t \<noteq> [] \<Longrightarrow> sublist t (replaceMatches m [c] s) \<Longrightarrow> sublist t s"
proof (induction m "[c]" s rule: replaceMatches.induct)
  case (1 m)
  then show ?case by simp
next
  case (2 m x xs)
  show ?case
  proof (cases "m (x # xs) = 0")
    case True
    then have "sublist t (x # replaceMatches m [c] xs)" using "2.prems"(3) by simp
    then consider "prefix t (x # replaceMatches m [c] xs)" | "sublist t (replaceMatches m [c] xs)"
      by (auto simp: sublist_Cons_right)
    then show ?thesis
    proof cases
      case 1
      then have "prefix t (replaceMatches m [c] (x # xs))" using True by simp
      then have "prefix t (x # xs)" using prefix_replaceMatches "2.prems"(1) by blast
      then show ?thesis by (simp add: prefix_imp_sublist)
    next
      case 2
      then have "sublist t xs" using "2.hyps"(1) [OF True] "2.prems"(1,2) by simp
      then show ?thesis by (simp add: sublist_Cons_right)
    qed
  next
    case False
    let ?r = "drop (m (x # xs)) (x # xs)"
    have "sublist t (c # replaceMatches m [c] ?r)" using False "2.prems"(3) by simp
    moreover have "\<not> prefix t (c # replaceMatches m [c] ?r)"
      using "2.prems"(1,2) by (cases t) auto
    ultimately have "sublist t (replaceMatches m [c] ?r)" by (simp add: sublist_Cons_right)
    then have "sublist t ?r" using "2.hyps"(2) [OF False] "2.prems"(1,2) by simp
    then show ?thesis
      by (meson sublist_order.order_trans suffix_drop suffix_imp_sublist)
  qed
qed

lemma no_sublist_after_replace:
  "c \<notin> set t \<Longrightarrow> t \<noteq> [] \<Longrightarrow> \<not> sublist t (replaceMatches (lit t) [c] s)"
proof (induction "lit t" "[c]" s rule: replaceMatches.induct)
  case 1
  then show ?case by simp
next
  case (2 x xs)
  show ?case
  proof (cases "lit t (x # xs) = 0")
    case True
    show ?thesis
    proof
      assume "sublist t (replaceMatches (lit t) [c] (x # xs))"
      then have "sublist t (x # replaceMatches (lit t) [c] xs)" using True by simp
      then consider "prefix t (x # replaceMatches (lit t) [c] xs)"
        | "sublist t (replaceMatches (lit t) [c] xs)"
        by (auto simp: sublist_Cons_right)
      then show False
      proof cases
        case 1
        then have "prefix t (replaceMatches (lit t) [c] (x # xs))" using True by simp
        then have "prefix t (x # xs)" using prefix_replaceMatches "2.prems"(1) by blast
        then show False using True "2.prems"(2) by (simp add: lit_eq_0)
      next
        case 2
        then show False using "2.hyps"(1) [OF True] "2.prems" by simp
      qed
    qed
  next
    case False
    let ?r = "drop (lit t (x # xs)) (x # xs)"
    show ?thesis
    proof
      assume "sublist t (replaceMatches (lit t) [c] (x # xs))"
      then have "sublist t (c # replaceMatches (lit t) [c] ?r)" using False by simp
      moreover have "\<not> prefix t (c # replaceMatches (lit t) [c] ?r)"
        using "2.prems"(1,2) by (cases t) auto
      ultimately have "sublist t (replaceMatches (lit t) [c] ?r)"
        by (simp add: sublist_Cons_right)
      then show False using "2.hyps"(2) [OF False] "2.prems" by simp
    qed
  qed
qed

lemma set_replaceMatches: "set (replaceMatches m rep s) \<subseteq> set rep \<union> set s"
proof (induction m rep s rule: replaceMatches.induct)
  case (1 m rep)
  then show ?case by simp
next
  case (2 m rep x xs)
  show ?case
  proof (cases "m (x # xs) = 0")
    case True
    then show ?thesis using "2.IH"(1) by auto
  next
    case False
    have "set (drop (m (x # xs)) (x # xs)) \<subseteq> set (x # xs)" by (rule set_drop_subset)
    then show ?thesis using False "2.IH"(2) by auto
  qed
qed

section \<open>Normalising a hint\<close>

lemma trimEnd_prefix: "prefix (trimEnd s) s"
proof -
  have "s = rev (dropWhile isWhiteSpace (rev s)) @ rev (takeWhile isWhiteSpace (rev s))"
    by (metis rev_append rev_rev_ident takeWhile_dropWhile_id)
  then show ?thesis unfolding trimEnd_def by (metis prefixI)
qed

lemma trimStart_suffix: "suffix (trimStart s) s"
  unfolding trimStart_def by (metis suffixI takeWhile_dropWhile_id)

lemma trim_sublist: "sublist (trim s) s"
  unfolding trim_def
  by (meson prefix_imp_sublist sublist_order.order_trans suffix_imp_sublist trimEnd_prefix
      trimStart_suffix)

lemma length_trimEnd: "length (trimEnd s) \<le> length s"
  using trimEnd_prefix prefix_length_le by blast

lemma set_trimEnd: "set (trimEnd s) \<subseteq> set s"
  using trimEnd_prefix set_mono_prefix by blast

lemma set_trim: "set (trim s) \<subseteq> set s"
  using trim_sublist set_mono_sublist by blast

lemma replace_charClass:
  "replaceMatches (charClass P) [r] s = map (\<lambda>c. if P c then r else c) s"
  by (induction s) (auto simp: charClass_def)

lemma SP_not_control: "\<not> isControl SP"
  by (simp add: isControl_def SP_def)

lemma removeToken_replace: "t \<noteq> [] \<Longrightarrow> removeToken t n = replaceMatches (lit t) [SP] n"
  by (simp add: removeToken_def join_split)

lemma set_fold_removeToken:
  "\<forall>t\<in>set ts. t \<noteq> [] \<Longrightarrow> set (fold removeToken ts n) \<subseteq> insert SP (set n)"
proof (induction ts arbitrary: n)
  case Nil
  then show ?case by auto
next
  case (Cons t ts)
  have "set (removeToken t n) \<subseteq> insert SP (set n)"
    using Cons.prems set_replaceMatches [of "lit t" "[SP]" n] by (simp add: removeToken_replace)
  moreover have "set (fold removeToken ts (removeToken t n)) \<subseteq> insert SP (set (removeToken t n))"
    using Cons.IH Cons.prems by simp
  ultimately show ?case by auto
qed

lemma fold_removeToken_keeps_absent:
  "\<forall>t'\<in>set ts. t' \<noteq> [] \<Longrightarrow> SP \<notin> set t \<Longrightarrow> t \<noteq> [] \<Longrightarrow> \<not> sublist t n \<Longrightarrow>
   \<not> sublist t (fold removeToken ts n)"
proof (induction ts arbitrary: n)
  case Nil
  then show ?case by simp
next
  case (Cons t' ts)
  have "\<not> sublist t (removeToken t' n)"
    using Cons.prems sublist_replaceMatches [of SP t "lit t'" n]
    by (auto simp: removeToken_replace)
  then show ?case using Cons.IH Cons.prems by simp
qed

lemma fold_removeToken_removes:
  "\<forall>t'\<in>set ts. t' \<noteq> [] \<Longrightarrow> t \<in> set ts \<Longrightarrow> SP \<notin> set t \<Longrightarrow>
   \<not> sublist t (fold removeToken ts n)"
proof (induction ts arbitrary: n)
  case Nil
  then show ?case by simp
next
  case (Cons t' ts)
  show ?case
  proof (cases "t = t'")
    case True
    have "t \<noteq> []" using Cons.prems(1) True by simp
    then have "\<not> sublist t (removeToken t n)"
      using no_sublist_after_replace [of SP t n] Cons.prems(3) by (simp add: removeToken_replace)
    then show ?thesis
      using fold_removeToken_keeps_absent [of ts t "removeToken t n"] Cons.prems \<open>t \<noteq> []\<close> True
      by simp
  next
    case False
    then show ?thesis using Cons.IH Cons.prems by simp
  qed
qed

lemma set_getSteuerzeichenTokens:
  "set (getSteuerzeichenTokens cfg) =
     {t. t \<noteq> [] \<and>
         (t \<in> set (statusSymbolStrings cfg) \<or> Some t = map_option trim (hinweisTrennzeichen cfg) \<or>
          t = descriptionTrennzeichen cfg)}"
  by (auto simp: getSteuerzeichenTokens_def sortByLengthDesc_def statusSymbolStrings_def
      map_filter_simps split: option.splits)

lemma normalizeHinweis_alt:
  "normalizeHinweis P cfg h =
     (let n0 = replaceMatches (charClass isControl) [SP] (normalizeNFKC P h);
          n1 = fold removeToken (getSteuerzeichenTokens cfg) n0;
          n2 = trim (replaceMatches whiteSpaceRun [SP] n1)
      in if length n2 > 20 then trimEnd (take 20 n2) else n2)"
proof -
  have "(\<lambda>token n. join [SP] (split n token)) = removeToken"
    by (intro ext) (simp add: removeToken_def)
  then show ?thesis by (simp add: normalizeHinweis_def)
qed

lemma normalizeHinweis_sublist_n1:
  assumes "sublist t (normalizeHinweis P cfg h)" "SP \<notin> set t" "t \<noteq> []"
  shows "sublist t (fold removeToken (getSteuerzeichenTokens cfg)
           (replaceMatches (charClass isControl) [SP] (normalizeNFKC P h)))"
proof -
  let ?n1 = "fold removeToken (getSteuerzeichenTokens cfg)
           (replaceMatches (charClass isControl) [SP] (normalizeNFKC P h))"
  let ?c = "replaceMatches whiteSpaceRun [SP] ?n1"
  have "sublist (normalizeHinweis P cfg h) (trim ?c)"
  proof (cases "length (trim ?c) > 20")
    case True
    then have "normalizeHinweis P cfg h = trimEnd (take 20 (trim ?c))"
      by (simp add: normalizeHinweis_alt Let_def)
    then show ?thesis
      by (metis prefix_imp_sublist prefix_order.order_trans take_is_prefix trimEnd_prefix)
  next
    case False
    then show ?thesis by (simp add: normalizeHinweis_alt Let_def)
  qed
  then have "sublist t ?c"
    using assms(1) trim_sublist sublist_order.order_trans by blast
  then show ?thesis using sublist_replaceMatches assms(2,3) by blast
qed

lemma normalizeHinweis_length: "length (normalizeHinweis P cfg h) \<le> 20"
proof -
  have "length (trimEnd (take 20 s)) \<le> 20" for s :: jsstring
    using length_trimEnd [of "take 20 s"] by simp
  then show ?thesis by (simp add: normalizeHinweis_alt Let_def)
qed

lemma normalizeHinweis_set:
  "set (normalizeHinweis P cfg h) \<subseteq>
     insert SP (set (replaceMatches (charClass isControl) [SP] (normalizeNFKC P h)))"
proof -
  let ?n0 = "replaceMatches (charClass isControl) [SP] (normalizeNFKC P h)"
  let ?n1 = "fold removeToken (getSteuerzeichenTokens cfg) ?n0"
  let ?c = "replaceMatches whiteSpaceRun [SP] ?n1"
  have ne: "\<forall>t\<in>set (getSteuerzeichenTokens cfg). t \<noteq> []"
    by (simp add: set_getSteuerzeichenTokens)
  have 1: "set ?n1 \<subseteq> insert SP (set ?n0)" using set_fold_removeToken [OF ne] .
  have 2: "set ?c \<subseteq> insert SP (set ?n1)" using set_replaceMatches [of whiteSpaceRun "[SP]" ?n1] by simp
  have 3: "set (trim ?c) \<subseteq> set ?c" by (rule set_trim)
  have 4: "set (trimEnd (take 20 (trim ?c))) \<subseteq> set (trim ?c)"
    using set_trimEnd [of "take 20 (trim ?c)"] set_take_subset [of 20 "trim ?c"] by blast
  have "set (normalizeHinweis P cfg h) \<subseteq> set (trim ?c)"
    using 4 by (simp add: normalizeHinweis_alt Let_def)
  then show ?thesis using 1 2 3 by blast
qed


























section \<open>Unfolding lines\<close>

lemma lit_Cons_neq: "x \<noteq> c \<Longrightarrow> lit (c # cs) (x # xs) = 0"
  by (simp add: lit_def startsWith_def)

lemma lit_single_eq: "lit [c] (c # xs) = 1"
  by (simp add: lit_def startsWith_def)

lemma lit_CRLF: "lit [CR, LF] (CR # LF # xs) = 2"
  by (simp add: lit_def startsWith_def)

lemma replace_CRLF_skip:
  "CR \<notin> set a \<Longrightarrow>
   replaceMatches (lit [CR, LF]) [LF] (a @ rest) = a @ replaceMatches (lit [CR, LF]) [LF] rest"
  by (induction a) (auto simp: lit_Cons_neq)

lemma replace_CRLF_hit:
  "replaceMatches (lit [CR, LF]) [LF] (CR # LF # rest) =
     LF # replaceMatches (lit [CR, LF]) [LF] rest"
  by (simp add: lit_CRLF)

lemma LF_neq_CR: "LF \<noteq> CR" "CR \<noteq> LF" "SP \<noteq> LF" "TAB \<noteq> LF" "SP \<noteq> CR" "TAB \<noteq> CR"
  by (simp_all add: LF_def CR_def SP_def TAB_def)

lemma replace_CRLF_LF:
  "replaceMatches (lit [CR, LF]) [LF] (LF # rest) = LF # replaceMatches (lit [CR, LF]) [LF] rest"
  by (simp add: lit_Cons_neq LF_neq_CR)

lemma replace_CRLF_folded:
  assumes "CR \<notin> set first"
    and "\<forall>(w, p)\<in>set conts. (w = SP \<or> w = TAB) \<and> CR \<notin> set p"
    and "nl = [LF] \<or> nl = [CR, LF]"
  shows "replaceMatches (lit [CR, LF]) [LF] (folded nl first conts) = folded [LF] first conts"
  using assms(1,2)
proof (induction conts arbitrary: first)
  case Nil
  then show ?case
    using replace_CRLF_skip [of first "[]"] by (simp add: folded_def)
next
  case (Cons wp conts)
  obtain w p where wp: "wp = (w, p)" by (cases wp)
  have w: "w = SP \<or> w = TAB" and p: "CR \<notin> set p" using Cons.prems(2) wp by auto
  have wp_nocr: "CR \<notin> set (w # p)" using w p LF_neq_CR by auto
  have rest: "\<forall>(w, p)\<in>set conts. (w = SP \<or> w = TAB) \<and> CR \<notin> set p"
    using Cons.prems(2) by simp
  have IH: "replaceMatches (lit [CR, LF]) [LF] (folded nl (w # p) conts) = folded [LF] (w # p) conts"
    using Cons.IH [OF wp_nocr rest] .
  have f: "folded nl first (wp # conts) = first @ nl @ folded nl (w # p) conts" for nl
    by (simp add: folded_def wp)
  have "replaceMatches (lit [CR, LF]) [LF] (nl @ folded nl (w # p) conts) =
        LF # folded [LF] (w # p) conts"
    using assms(3) IH replace_CRLF_hit replace_CRLF_LF by auto
  then show ?case
    using replace_CRLF_skip [OF Cons.prems(1), of "nl @ folded nl (w # p) conts"]
    by (simp add: f)
qed

lemma splitFrom_LF_skip:
  "LF \<notin> set a \<Longrightarrow> splitFrom (lit [LF]) cur (a @ rest) = splitFrom (lit [LF]) (cur @ a) rest"
  by (induction a arbitrary: cur) (auto simp: lit_Cons_neq)

lemma splitFrom_LF_hit:
  "splitFrom (lit [LF]) cur (LF # rest) = cur # splitFrom (lit [LF]) [] rest"
  by (simp add: lit_single_eq)

lemma split_LF_folded:
  assumes "LF \<notin> set first"
    and "\<forall>(w, p)\<in>set conts. (w = SP \<or> w = TAB) \<and> LF \<notin> set p"
  shows "splitFrom (lit [LF]) cur (folded [LF] first conts) =
           (cur @ first) # map (\<lambda>(w, p). w # p) conts"
  using assms
proof (induction conts arbitrary: first cur)
  case Nil
  then show ?case
    using splitFrom_LF_skip [of first cur "[]"] by (simp add: folded_def)
next
  case (Cons wp conts)
  obtain w p where wp: "wp = (w, p)" by (cases wp)
  have w: "w = SP \<or> w = TAB" and p: "LF \<notin> set p" using Cons.prems(2) wp by auto
  have wp_nolf: "LF \<notin> set (w # p)" using w p LF_neq_CR by auto
  have rest: "\<forall>(w, p)\<in>set conts. (w = SP \<or> w = TAB) \<and> LF \<notin> set p"
    using Cons.prems(2) by simp
  have f: "folded [LF] first (wp # conts) = first @ LF # folded [LF] (w # p) conts"
    by (simp add: folded_def wp)
  have "splitFrom (lit [LF]) cur (folded [LF] first (wp # conts)) =
        splitFrom (lit [LF]) (cur @ first) (LF # folded [LF] (w # p) conts)"
    using splitFrom_LF_skip [OF Cons.prems(1), of cur "LF # folded [LF] (w # p) conts"]
    by (simp only: f)
  also have "\<dots> = (cur @ first) # splitFrom (lit [LF]) [] (folded [LF] (w # p) conts)"
    by (rule splitFrom_LF_hit)
  also have "\<dots> = (cur @ first) # (w # p) # map (\<lambda>(w, p). w # p) conts"
    using Cons.IH [OF wp_nolf rest, of "[]"] by simp
  finally show ?case by (simp add: wp)
qed

lemma unfold_continuations:
  assumes "\<forall>(w, p)\<in>set conts. w = SP \<or> w = TAB"
  shows "foldl unfoldStep [acc] (map (\<lambda>(w, p). w # p) conts) = [acc @ concat (map snd conts)]"
  using assms
proof (induction conts arbitrary: acc)
  case Nil
  then show ?case by simp
next
  case (Cons wp conts)
  obtain w p where wp: "wp = (w, p)" by (cases wp)
  have w: "w = SP \<or> w = TAB" using Cons.prems wp by auto
  have step: "unfoldStep [acc] (w # p) = [acc @ p]"
    using w by (auto simp: unfoldStep_def startsWith_def)
  show ?case
    using Cons.IH [of "acc @ p"] Cons.prems by (simp add: wp step)
qed

section \<open>Encoding and decoding the subtask list\<close>







































section \<open>Escaping, pass by pass\<close>

lemma replace_single:
  "replaceMatches (lit [c]) rep s = concat (map (\<lambda>x. if x = c then rep else [x]) s)"
  by (induction s) (auto simp: lit_def startsWith_def)

lemma escapeIcsText_chars: "escapeIcsText v = concat (map (escapeChar [LF, 0x2C, 0x3B]) v)"
proof -
  have "concat (map (\<lambda>x. if x = 0x3B then [BSL, 0x3B] else [x])
          (concat (map (\<lambda>x. if x = 0x2C then [BSL, 0x2C] else [x])
            (concat (map (\<lambda>x. if x = LF then [BSL, 0x6E] else [x])
              (concat (map (\<lambda>x. if x = BSL then [BSL, BSL] else [x]) v))))))) =
        concat (map (escapeChar [LF, 0x2C, 0x3B]) v)"
    by (induction v) (simp_all add: escapeChar_def BSL_def LF_def)
  then show ?thesis by (simp only: escapeIcsText_def replace_single)
qed

lemma lit_second_neq: "b \<noteq> c \<Longrightarrow> lit [a, c] (x # b # rest) = 0"
  by (simp add: lit_def startsWith_def)

lemma lit_first_neq: "x \<noteq> a \<Longrightarrow> lit (a # p) (x # rest) = 0"
  by (simp add: lit_def startsWith_def)

lemma lit_pair_hit: "lit [a, c] (a # c # rest) = 2"
  by (simp add: lit_def startsWith_def)

lemma lit_after_backslash:
  assumes "c \<noteq> BSL"
  shows "lit [BSL, c] (BSL # concat (map (escapeChar (c # S)) v)) = 0"
proof (cases v)
  case Nil
  then show ?thesis by (simp add: lit_def startsWith_def)
next
  case (Cons y w)
  have "\<exists>t. escapeChar (c # S) y = (if y = BSL \<or> y \<in> set (c # S) then BSL else y) # t"
    by (cases "y = BSL"; cases "y \<in> set (c # S)") (simp_all add: escapeChar_def)
  then obtain t where t: "escapeChar (c # S) y = (if y = BSL \<or> y \<in> set (c # S) then BSL else y) # t"
    by blast
  have "(if y = BSL \<or> y \<in> set (c # S) then BSL else y) \<noteq> c" using assms by auto
  then show ?thesis unfolding Cons using t by (simp add: lit_second_neq)
qed

lemma concat_map_Cons: "concat (map f (x # v)) = f x @ concat (map f v)"
  by simp

lemma unescape_pass:
  assumes "c \<noteq> BSL" "c \<noteq> LF" "c \<notin> set S" "LF \<notin> set S"
  shows "replaceMatches (lit [BSL, c]) [c] (concat (map (escapeChar (c # S)) v)) =
           concat (map (escapeChar S) v)"
proof (induction v)
  case Nil
  then show ?case by simp
next
  case (Cons x v)
  let ?T = "concat (map (escapeChar (c # S)) v)"
  let ?R = "replaceMatches (lit [BSL, c]) [c]"
  consider "x = BSL" | "x = c" | "x \<noteq> c" "x \<in> set S" "x \<noteq> BSL" | "x \<noteq> c" "x \<notin> set S" "x \<noteq> BSL"
    by blast
  then show ?case
  proof cases
    case 1
    have img: "escapeChar (c # S) x = [BSL, BSL]" "escapeChar S x = [BSL, BSL]"
      using 1 by (simp_all add: escapeChar_def)
    have "?R (BSL # BSL # ?T) = BSL # ?R (BSL # ?T)"
      using assms(1) by (simp add: lit_second_neq)
    also have "\<dots> = BSL # BSL # ?R ?T"
      using lit_after_backslash [OF assms(1), of S v] by simp
    finally have "?R ([BSL, BSL] @ ?T) = [BSL, BSL] @ ?R ?T" by simp
    then show ?thesis by (simp only: concat_map_Cons img Cons.IH)
  next
    case 2
    have img: "escapeChar (c # S) x = [BSL, c]" "escapeChar S x = [c]"
      using 2 assms by (simp_all add: escapeChar_def)
    have "?R ([BSL, c] @ ?T) = [c] @ ?R ?T"
      by (simp add: lit_pair_hit)
    then show ?thesis by (simp only: concat_map_Cons img Cons.IH)
  next
    case 3
    have "x \<noteq> LF" using 3(2) assms(4) by auto
    then have img: "escapeChar (c # S) x = [BSL, x]" "escapeChar S x = [BSL, x]"
      using 3 by (simp_all add: escapeChar_def)
    have "?R (BSL # x # ?T) = BSL # ?R (x # ?T)"
      using 3(1) by (simp add: lit_second_neq)
    also have "\<dots> = BSL # x # ?R ?T"
      using 3(3) by (simp add: lit_first_neq)
    finally have "?R ([BSL, x] @ ?T) = [BSL, x] @ ?R ?T" by simp
    then show ?thesis by (simp only: concat_map_Cons img Cons.IH)
  next
    case 4
    have img: "escapeChar (c # S) x = [x]" "escapeChar S x = [x]"
      using 4 by (simp_all add: escapeChar_def)
    have "?R ([x] @ ?T) = [x] @ ?R ?T"
      using 4(3) by (simp add: lit_first_neq)
    then show ?thesis by (simp only: concat_map_Cons img Cons.IH)
  qed
qed

lemma backslashN_simps:
  "b \<noteq> 0x6E \<Longrightarrow> b \<noteq> 0x4E \<Longrightarrow> backslashN (a # b # rest) = 0"
  "a \<noteq> BSL \<Longrightarrow> backslashN (a # rest) = 0"
  "backslashN [a] = 0"
  "backslashN (BSL # 0x6E # rest) = 2"
  by (auto simp: backslashN_def split: list.splits)

lemma unescape_pass_newline:
  assumes S: "LF \<notin> set S" "0x6E \<notin> set S" "0x4E \<notin> set S"
    and v: "\<not> sublist [BSL, 0x6E] v" "\<not> sublist [BSL, 0x4E] v"
  shows "replaceMatches backslashN [LF] (concat (map (escapeChar (LF # S)) v)) =
           concat (map (escapeChar S) v)"
  using v
proof (induction v)
  case Nil
  then show ?case by simp
next
  case (Cons x v)
  let ?T = "concat (map (escapeChar (LF # S)) v)"
  let ?R = "replaceMatches backslashN [LF]"
  have v': "\<not> sublist [BSL, 0x6E] v" "\<not> sublist [BSL, 0x4E] v"
    using Cons.prems by (auto simp: sublist_Cons_right)
  note IH = Cons.IH [OF v']
  have misc: "BSL \<noteq> (0x6E :: jschar)" "BSL \<noteq> (0x4E :: jschar)" "LF \<noteq> BSL"
    by (simp_all add: BSL_def LF_def)
  consider "x = BSL" | "x = LF" | "x \<noteq> LF" "x \<in> set S" "x \<noteq> BSL"
    | "x \<noteq> LF" "x \<notin> set S" "x \<noteq> BSL"
    by blast
  then show ?case
  proof cases
    case 1
    have img: "escapeChar (LF # S) x = [BSL, BSL]" "escapeChar S x = [BSL, BSL]"
      using 1 by (simp_all add: escapeChar_def)
    have tail: "backslashN (BSL # ?T) = 0"
    proof (cases v)
      case Nil
      then show ?thesis by (simp add: backslashN_simps)
    next
      case (Cons y w)
      have "y \<noteq> 0x6E" "y \<noteq> 0x4E"
        using Cons.prems 1 \<open>v = y # w\<close> by (auto simp: sublist_Cons_right)
      have "\<exists>t. escapeChar (LF # S) y =
          (if y = BSL \<or> y \<in> set (LF # S) then BSL else y) # t"
        by (cases "y = BSL"; cases "y \<in> set (LF # S)") (simp_all add: escapeChar_def)
      then obtain t where t: "escapeChar (LF # S) y =
          (if y = BSL \<or> y \<in> set (LF # S) then BSL else y) # t"
        by blast
      have "(if y = BSL \<or> y \<in> set (LF # S) then BSL else y) \<noteq> 0x6E"
        "(if y = BSL \<or> y \<in> set (LF # S) then BSL else y) \<noteq> 0x4E"
        using \<open>y \<noteq> 0x6E\<close> \<open>y \<noteq> 0x4E\<close> misc by auto
      then show ?thesis unfolding \<open>v = y # w\<close> using t by (simp add: backslashN_simps)
    qed
    have "?R (BSL # BSL # ?T) = BSL # ?R (BSL # ?T)"
      using misc by (simp add: backslashN_simps)
    also have "\<dots> = BSL # BSL # ?R ?T"
      using tail by simp
    finally have "?R ([BSL, BSL] @ ?T) = [BSL, BSL] @ ?R ?T" by simp
    then show ?thesis by (simp only: concat_map_Cons img IH)
  next
    case 2
    have img: "escapeChar (LF # S) x = [BSL, 0x6E]" "escapeChar S x = [LF]"
      using 2 S misc by (simp_all add: escapeChar_def)
    have "?R ([BSL, 0x6E] @ ?T) = [LF] @ ?R ?T"
      by (simp add: backslashN_simps)
    then show ?thesis by (simp only: concat_map_Cons img IH)
  next
    case 3
    have img: "escapeChar (LF # S) x = [BSL, x]" "escapeChar S x = [BSL, x]"
      using 3 by (simp_all add: escapeChar_def)
    have "x \<noteq> 0x6E" "x \<noteq> 0x4E" using 3(2) S by auto
    then have "?R (BSL # x # ?T) = BSL # ?R (x # ?T)"
      by (simp add: backslashN_simps)
    also have "\<dots> = BSL # x # ?R ?T"
      using 3(3) by (simp add: backslashN_simps)
    finally have "?R ([BSL, x] @ ?T) = [BSL, x] @ ?R ?T" by simp
    then show ?thesis by (simp only: concat_map_Cons img IH)
  next
    case 4
    have img: "escapeChar (LF # S) x = [x]" "escapeChar S x = [x]"
      using 4 by (simp_all add: escapeChar_def)
    have "?R ([x] @ ?T) = [x] @ ?R ?T"
      using 4(3) by (simp add: backslashN_simps)
    then show ?thesis by (simp only: concat_map_Cons img IH)
  qed
qed

lemma unescape_pass_backslash:
  "replaceMatches (lit [BSL, BSL]) [BSL] (concat (map (escapeChar []) v)) = v"
proof (induction v)
  case Nil
  then show ?case by simp
next
  case (Cons x v)
  let ?T = "concat (map (escapeChar []) v)"
  let ?R = "replaceMatches (lit [BSL, BSL]) [BSL]"
  show ?case
  proof (cases "x = BSL")
    case True
    have img: "escapeChar [] BSL = [BSL, BSL]" by (simp add: escapeChar_def)
    have "?R ([BSL, BSL] @ ?T) = BSL # ?R ?T" by (simp add: lit_pair_hit)
    then show ?thesis unfolding True by (simp only: concat_map_Cons img Cons.IH)
  next
    case False
    have img: "escapeChar [] x = [x]" using False by (simp add: escapeChar_def)
    have "?R ([x] @ ?T) = x # ?R ?T" using False by (simp add: lit_first_neq)
    then show ?thesis by (simp only: concat_map_Cons img Cons.IH)
  qed
qed

lemma unescape_escape:
  assumes "\<not> sublist [BSL, 0x6E] v" "\<not> sublist [BSL, 0x4E] v"
  shows "unescapeIcsText (escapeIcsText v) = v"
proof -
  have c: "(0x2C :: jschar) \<noteq> BSL" "(0x2C :: jschar) \<noteq> LF" "(0x3B :: jschar) \<noteq> BSL"
    "(0x3B :: jschar) \<noteq> LF" "(0x2C :: jschar) \<noteq> 0x3B"
    by (simp_all add: BSL_def LF_def)
  have 1: "replaceMatches backslashN [LF] (escapeIcsText v) =
           concat (map (escapeChar [0x2C, 0x3B]) v)"
    unfolding escapeIcsText_chars
    using unescape_pass_newline [of "[0x2C, 0x3B]" v] assms by (simp add: LF_def)
  have 2: "replaceMatches (lit [BSL, 0x2C]) [0x2C] (concat (map (escapeChar [0x2C, 0x3B]) v)) =
           concat (map (escapeChar [0x3B]) v)"
    using unescape_pass [of "0x2C" "[0x3B]" v] c by simp
  have 3: "replaceMatches (lit [BSL, 0x3B]) [0x3B] (concat (map (escapeChar [0x3B]) v)) =
           concat (map (escapeChar []) v)"
    using unescape_pass [of "0x3B" "[]" v] c by simp
  show ?thesis
    unfolding unescapeIcsText_def 1 2 3 by (rule unescape_pass_backslash)
qed

section \<open>The VTODO component\<close>

lemma BEGIN_neq_END: "BEGIN_VTODO \<noteq> END_VTODO"
  by (simp add: BEGIN_VTODO_def END_VTODO_def asc_def)

lemma END_neq_BEGIN: "END_VTODO \<noteq> BEGIN_VTODO"
  by (simp add: BEGIN_VTODO_def END_VTODO_def asc_def)

lemma collectVtodo_True:
  "collectVtodo True ls = filter (\<lambda>l. l \<noteq> BEGIN_VTODO) (takeWhile (\<lambda>l. l \<noteq> END_VTODO) ls)"
  by (induction ls) (auto simp: BEGIN_neq_END)

lemma collectVtodo_no_begin:
  "BEGIN_VTODO \<notin> set ls \<Longrightarrow> collectVtodo False ls = []"
  by (induction ls) auto

lemma collectVtodo_False_prefix:
  "BEGIN_VTODO \<notin> set pre \<Longrightarrow> END_VTODO \<notin> set pre \<Longrightarrow>
   collectVtodo False (pre @ rest) = collectVtodo False rest"
  by (induction pre) auto

lemma collectVtodo_end_first:
  "BEGIN_VTODO \<notin> set pre \<Longrightarrow> collectVtodo False (pre @ END_VTODO # rest) = []"
  using END_neq_BEGIN by (induction pre) auto

lemma getVtodoBounds_Some:
  assumes "getVtodoBounds ls = Some (b, e)"
  shows "b < e" "e < length ls" "ls ! b = BEGIN_VTODO" "ls ! e = END_VTODO"
    "\<forall>i<b. ls ! i \<noteq> BEGIN_VTODO" "\<forall>i<e. b < i \<longrightarrow> ls ! i \<noteq> END_VTODO"
  using assms
  by (auto simp: getVtodoBounds_def findIndex_Some split: option.splits)

lemma takeWhile_eq_take_first:
  assumes "n < length xs" "\<not> p (xs ! n)" "\<forall>i<n. p (xs ! i)"
  shows "takeWhile p xs = take n xs"
proof -
  have "xs = take n xs @ xs ! n # drop (Suc n) xs"
    using assms(1) by (simp add: id_take_nth_drop)
  moreover have "\<forall>x\<in>set (take n xs). p x"
    using assms(1,3) by (auto simp: in_set_conv_nth)
  ultimately show ?thesis
    using assms(2) by (metis takeWhile_append2 takeWhile.simps(2) append_Nil2 takeWhile_tail)
qed

lemma region_of_bounds:
  assumes b: "getVtodoBounds ls = Some (b, e)" and noend: "END_VTODO \<notin> set (take b ls)"
  shows "collectVtodo False ls = filter (\<lambda>l. l \<noteq> BEGIN_VTODO) (slice (b + 1) e ls)"
proof -
  note B = getVtodoBounds_Some [OF b]
  have blen: "b < length ls" using B(1,2) by simp
  have split: "ls = take b ls @ BEGIN_VTODO # drop (Suc b) ls"
    using blen B(3) by (metis id_take_nth_drop)
  have nobegin: "BEGIN_VTODO \<notin> set (take b ls)"
    using B(5) blen by (auto simp: in_set_conv_nth)
  have "collectVtodo False ls = collectVtodo False (BEGIN_VTODO # drop (Suc b) ls)"
    using collectVtodo_False_prefix [OF nobegin noend, of "BEGIN_VTODO # drop (Suc b) ls"] split
    by simp
  also have "\<dots> = collectVtodo True (drop (Suc b) ls)" by simp
  also have "\<dots> = filter (\<lambda>l. l \<noteq> BEGIN_VTODO)
      (takeWhile (\<lambda>l. l \<noteq> END_VTODO) (drop (Suc b) ls))"
    by (rule collectVtodo_True)
  also have "takeWhile (\<lambda>l. l \<noteq> END_VTODO) (drop (Suc b) ls) = take (e - Suc b) (drop (Suc b) ls)"
  proof (rule takeWhile_eq_take_first)
    show "e - Suc b < length (drop (Suc b) ls)" using B(1,2) by simp
    show "\<not> drop (Suc b) ls ! (e - Suc b) \<noteq> END_VTODO" using B(1,2,4) by simp
    show "\<forall>i<e - Suc b. drop (Suc b) ls ! i \<noteq> END_VTODO"
    proof (intro allI impI)
      fix i assume "i < e - Suc b"
      then have "Suc b + i < e" "b < Suc b + i" by simp_all
      then have "ls ! (Suc b + i) \<noteq> END_VTODO" using B(6) by blast
      then show "drop (Suc b) ls ! i \<noteq> END_VTODO" using B(2) \<open>Suc b + i < e\<close> by simp
    qed
  qed
  finally show ?thesis by (simp add: slice_def)
qed

section \<open>Property extraction\<close>

text \<open>
  C3, as the code has it. Let \<open>ls\<close> be the unfolded lines of the content.
  \<^item> When \<open>getVtodoBounds\<close> finds the region \<open>(b, e)\<close> and no \<open>END:VTODO\<close> line comes
    before the first \<open>BEGIN:VTODO\<close> line, the properties are those of the lines strictly
    between \<open>b\<close> and \<open>e\<close>, without any further \<open>BEGIN:VTODO\<close> line among them; the
    lines before \<open>b\<close> and from \<open>e\<close> on contribute nothing.
  \<^item> Without a \<open>BEGIN:VTODO\<close> line the property set is empty.
  \<^item> When an \<open>END:VTODO\<close> line comes before every \<open>BEGIN:VTODO\<close> line, the loop stops
    there and the property set is empty.
  \<^item> With a \<open>BEGIN:VTODO\<close> line and no \<open>END:VTODO\<close> line at all, the loop runs to the
    end of the content: the properties are those of every line after the first
    \<open>BEGIN:VTODO\<close> line.
\<close>

theorem parseIcsProperties_region:
  "(getVtodoBounds (unfoldIcsLines content) = Some (b, e) \<and>
      END_VTODO \<notin> set (take b (unfoldIcsLines content)) \<longrightarrow>
    parseIcsProperties P content =
      propertiesOfLines P
        (filter (\<lambda>l. l \<noteq> BEGIN_VTODO) (slice (b + 1) e (unfoldIcsLines content)))) \<and>
   (BEGIN_VTODO \<notin> set (unfoldIcsLines content) \<longrightarrow> parseIcsProperties P content = Map.empty) \<and>
   (unfoldIcsLines content = pre @ END_VTODO # rest \<and> BEGIN_VTODO \<notin> set pre \<longrightarrow>
      parseIcsProperties P content = Map.empty) \<and>
   (unfoldIcsLines content = pre @ BEGIN_VTODO # rest \<and> BEGIN_VTODO \<notin> set pre \<and>
      END_VTODO \<notin> set pre \<and> END_VTODO \<notin> set rest \<longrightarrow>
      parseIcsProperties P content =
        propertiesOfLines P (filter (\<lambda>l. l \<noteq> BEGIN_VTODO) rest))"
proof (intro conjI impI)
  assume "getVtodoBounds (unfoldIcsLines content) = Some (b, e) \<and>
      END_VTODO \<notin> set (take b (unfoldIcsLines content))"
  then show "parseIcsProperties P content =
      propertiesOfLines P
        (filter (\<lambda>l. l \<noteq> BEGIN_VTODO) (slice (b + 1) e (unfoldIcsLines content)))"
    by (simp add: parseIcsProperties_def region_of_bounds)
next
  assume "BEGIN_VTODO \<notin> set (unfoldIcsLines content)"
  then show "parseIcsProperties P content = Map.empty"
    by (simp add: parseIcsProperties_def collectVtodo_no_begin propertiesOfLines_def)
next
  assume "unfoldIcsLines content = pre @ END_VTODO # rest \<and> BEGIN_VTODO \<notin> set pre"
  then show "parseIcsProperties P content = Map.empty"
    by (simp add: parseIcsProperties_def collectVtodo_end_first propertiesOfLines_def)
next
  assume a: "unfoldIcsLines content = pre @ BEGIN_VTODO # rest \<and> BEGIN_VTODO \<notin> set pre \<and>
      END_VTODO \<notin> set pre \<and> END_VTODO \<notin> set rest"
  then have "collectVtodo False (unfoldIcsLines content) = collectVtodo True rest"
    using collectVtodo_False_prefix [of pre "BEGIN_VTODO # rest"] by simp
  also have "\<dots> = filter (\<lambda>l. l \<noteq> BEGIN_VTODO) rest"
  proof -
    have tw: "takeWhile (\<lambda>l. l \<noteq> END_VTODO) rest = rest"
      using a by (auto simp: takeWhile_eq_all_conv)
    show ?thesis by (simp only: collectVtodo_True tw)
  qed
  finally show "parseIcsProperties P content =
        propertiesOfLines P (filter (\<lambda>l. l \<noteq> BEGIN_VTODO) rest)"
    by (simp add: parseIcsProperties_def)
qed


theorem parseIcsProperties_region_witness:
  "getVtodoBounds (unfoldIcsLines minimalTask) = Some (0, 2) \<and>
   END_VTODO \<notin> set (take 0 (unfoldIcsLines minimalTask)) \<and>
   parseIcsProperties asciiPlatform minimalTask =
     propertiesOfLines asciiPlatform
       (filter (\<lambda>l. l \<noteq> BEGIN_VTODO) (slice (0 + 1) 2 (unfoldIcsLines minimalTask))) \<and>
   parseIcsProperties asciiPlatform minimalTask (asc ''UID'') = Some (asc ''1'') \<and>
   unfoldIcsLines unterminatedTask = [] @ BEGIN_VTODO # [asc ''UID:1''] \<and>
   parseIcsProperties asciiPlatform unterminatedTask =
     propertiesOfLines asciiPlatform (filter (\<lambda>l. l \<noteq> BEGIN_VTODO) [asc ''UID:1''])"
proof -
  have b: "getVtodoBounds (unfoldIcsLines minimalTask) = Some (0, 2)" by code_simp
  have v: "parseIcsProperties asciiPlatform minimalTask (asc ''UID'') = Some (asc ''1'')"
    by code_simp
  have u: "unfoldIcsLines unterminatedTask = [] @ BEGIN_VTODO # [asc ''UID:1'']"
    "END_VTODO \<notin> set [asc ''UID:1'']"
    by code_simp+
  show ?thesis
    using parseIcsProperties_region [of minimalTask 0 2 asciiPlatform]
      parseIcsProperties_region [where content = unterminatedTask and P = asciiPlatform
        and pre = "[]" and rest = "[asc ''UID:1'']"]
      b v u by simp
qed

text \<open>
  C3 as stated fails on a component that is not closed: \<open>getVtodoBounds\<close> finds no
  region in \<open>BEGIN:VTODO\<close>, \<open>UID:1\<close>, and the extracted property set holds \<open>UID\<close>.
\<close>

theorem parseIcsProperties_unterminated:
  "getVtodoBounds (unfoldIcsLines unterminatedTask) = None \<and> parseIcsProperties asciiPlatform unterminatedTask \<noteq> Map.empty"
proof -
  have b: "getVtodoBounds (unfoldIcsLines unterminatedTask) = None" by code_simp
  have v: "parseIcsProperties asciiPlatform unterminatedTask (asc ''UID'') = Some (asc ''1'')" by code_simp
  have "parseIcsProperties asciiPlatform unterminatedTask \<noteq> Map.empty"
  proof
    assume "parseIcsProperties asciiPlatform unterminatedTask = Map.empty"
    then have "parseIcsProperties asciiPlatform unterminatedTask (asc ''UID'') = None" by simp
    then show False using v by simp
  qed
  then show ?thesis using b by simp
qed

section \<open>Updating one subtask\<close>

text \<open>
  C2. When the file exists and the index is negative or not below the number of parsed
  subtasks, \<open>updateUnteraufgabeInFile\<close> fails with the error whose message names the
  index, and the file system it leaves is the one it found: nothing is written.
\<close>

theorem updateUnteraufgabeInFile_index_out_of_range:
  assumes "fs filePath = Some content"
    and "i < 0 \<or> int (length (unteraufgaben (parseTaskFromIcsContent P cfg content (Some filePath)))) \<le> i"
  shows "updateUnteraufgabeInFile P cfg now fs filePath i patch =
           (Inl (Error (indexAusserhalb i)), fs)"
  using assms by (auto simp: updateUnteraufgabeInFile_def readTaskFromFile_def Let_def)

theorem updateUnteraufgabeInFile_index_out_of_range_witness:
  "updateUnteraufgabeInFile asciiPlatform defaultModifierConfig sampleNow [samplePath \<mapsto> sampleTask] samplePath 1 samplePatch =
     (Inl (Error (indexAusserhalb 1)), [samplePath \<mapsto> sampleTask]) \<and>
   updateUnteraufgabeInFile asciiPlatform defaultModifierConfig sampleNow [samplePath \<mapsto> sampleTask] samplePath (- 1) samplePatch =
     (Inl (Error (indexAusserhalb (- 1))), [samplePath \<mapsto> sampleTask])"
proof -
  have f: "[samplePath \<mapsto> sampleTask] samplePath = Some sampleTask" by simp
  have n: "int (length (unteraufgaben
      (parseTaskFromIcsContent asciiPlatform defaultModifierConfig sampleTask (Some samplePath)))) \<le> 1"
    by code_simp
  show ?thesis
    using updateUnteraufgabeInFile_index_out_of_range [where fs = "[samplePath \<mapsto> sampleTask]"
        and filePath = samplePath and content = sampleTask and i = 1 and P = asciiPlatform
        and cfg = defaultModifierConfig and now = sampleNow and patch = samplePatch]
      updateUnteraufgabeInFile_index_out_of_range [where fs = "[samplePath \<mapsto> sampleTask]"
        and filePath = samplePath and content = sampleTask and i = "- 1" and P = asciiPlatform
        and cfg = defaultModifierConfig and now = sampleNow and patch = samplePatch]
      f n by simp
qed

section \<open>Writing the subtasks back\<close>



section \<open>Upserting a property\<close>

text \<open>
  C9. \<open>upsertProperty\<close> compares the upper-cased key with the key of each line, which is
  the upper-cased text before the first semicolon of what precedes the first colon. When
  no line has the key, the line \<open>KEY:value\<close> is appended at the end. Otherwise the first
  line with the key is replaced by \<open>KEY:value\<close>, whatever parameters it carried, and no
  other line changes. \<open>KEY\<close> is the upper-cased key, which for \<open>DESCRIPTION\<close>,
  \<open>DTSTAMP\<close> and \<open>LAST-MODIFIED\<close> is the key itself.
\<close>

theorem upsertProperty_first_match_or_append:
  "((\<forall>line\<in>set lines. lineKey P line \<noteq> Some (toUpperCase P key)) \<longrightarrow>
      upsertProperty P lines key v = lines @ [toUpperCase P key @ [0x3A] @ v]) \<and>
   (i < length lines \<and> lineKey P (lines ! i) = Some (toUpperCase P key) \<and>
    (\<forall>j<i. lineKey P (lines ! j) \<noteq> Some (toUpperCase P key)) \<longrightarrow>
      upsertProperty P lines key v = lines[i := toUpperCase P key @ [0x3A] @ v])"
proof (intro conjI impI)
  assume "\<forall>line\<in>set lines. lineKey P line \<noteq> Some (toUpperCase P key)"
  then have "findIndex (\<lambda>line index. lineKey P line = Some (toUpperCase P key)) lines = None"
    by (simp add: findIndex_None)
  then show "upsertProperty P lines key v = lines @ [toUpperCase P key @ [0x3A] @ v]"
    by (simp add: upsertProperty_def)
next
  assume "i < length lines \<and> lineKey P (lines ! i) = Some (toUpperCase P key) \<and>
    (\<forall>j<i. lineKey P (lines ! j) \<noteq> Some (toUpperCase P key))"
  then have "findIndex (\<lambda>line index. lineKey P line = Some (toUpperCase P key)) lines = Some i"
    by (simp add: findIndex_Some)
  then show "upsertProperty P lines key v = lines[i := toUpperCase P key @ [0x3A] @ v]"
    by (simp add: upsertProperty_def)
qed

theorem upsertProperty_first_match_or_append_witness:
  "upsertProperty asciiPlatform sampleLines (asc ''DESCRIPTION'') (asc ''new'') =
     [asc ''SUMMARY:x'', asc ''DESCRIPTION:new'', asc ''DESCRIPTION:again''] \<and>
   upsertProperty asciiPlatform sampleLines (asc ''DTSTAMP'') (asc ''20260105T130400Z'') =
     sampleLines @ [asc ''DTSTAMP:20260105T130400Z'']"
proof -
  have k: "toUpperCase asciiPlatform (asc ''DESCRIPTION'') = asc ''DESCRIPTION''"
    "toUpperCase asciiPlatform (asc ''DTSTAMP'') = asc ''DTSTAMP''" by code_simp+
  have a: "1 < length sampleLines \<and> lineKey asciiPlatform (sampleLines ! 1) = Some (asc ''DESCRIPTION'') \<and>
    (\<forall>j<1. lineKey asciiPlatform (sampleLines ! j) \<noteq> Some (asc ''DESCRIPTION''))"
    by code_simp
  have b: "\<forall>line\<in>set sampleLines. lineKey asciiPlatform line \<noteq> Some (asc ''DTSTAMP'')"
    by code_simp
  have c: "sampleLines[1 := asc ''DESCRIPTION'' @ [0x3A] @ asc ''new''] =
    [asc ''SUMMARY:x'', asc ''DESCRIPTION:new'', asc ''DESCRIPTION:again'']"
    "asc ''DTSTAMP'' @ [0x3A] @ asc ''20260105T130400Z'' = asc ''DTSTAMP:20260105T130400Z''"
    by code_simp+
  show ?thesis
    using upsertProperty_first_match_or_append [of sampleLines asciiPlatform "asc ''DESCRIPTION''" "asc ''new''" 1]
      upsertProperty_first_match_or_append [of sampleLines asciiPlatform "asc ''DTSTAMP''" "asc ''20260105T130400Z''" 0]
      k a b c by simp
qed

section \<open>Resolving a label\<close>

lemma label_Keller_3:
  "replaceMatches closingRunAtEnd [] (replaceMatches whiteSpaceRun [SP] (trim (asc ''Keller 3''))) =
     asc ''Keller 3''"
  "includes_str (asc ''Keller 3'') (asc ''-'') = False"
  "matchTypNameId (asc ''Keller 3'') = Some (asc ''Keller'', asc ''3'')"
  "int (digitsToNumber (asc ''3'')) = 3"
  by code_simp+

lemma label_gebaeudeA:
  "replaceMatches closingRunAtEnd [] (replaceMatches whiteSpaceRun [SP] (trim gebaeudeA)) =
     gebaeudeA"
  "includes_str gebaeudeA (asc ''-'') = True"
  "split gebaeudeA (asc ''-'') = [asc ''Geb'' @ [0xE4] @ asc ''ude A '', asc '' Keller 3'']"
  "trim (asc '' Keller 3'') = asc ''Keller 3''"
  by code_simp+

lemma getBereichByBezeichnung_Keller_3_example:
  "getBereichByBezeichnung asciiPlatform sampleStammdaten gebaeudeA =
     Some \<lparr> bereich_Typ_ID = 2, bereich_ID = 3, bereich_Haus_ID = 1, Eingang = asc ''A'',
            Lage = asc ''UG'', bereich_Person_ID = [] \<rparr>"
  "getBereichByTypNameUndId asciiPlatform sampleStammdaten (asc ''Keller'') 3 =
     Some \<lparr> bereich_Typ_ID = 2, bereich_ID = 3, bereich_Haus_ID = 1, Eingang = asc ''A'',
            Lage = asc ''UG'', bereich_Person_ID = [] \<rparr>"
  by code_simp+

text \<open>
  C6. Whatever the dataset holds, the label \<open>Keller 3\<close> resolves to what
  \<open>getBereichByTypNameUndId\<close> returns for the name \<open>Keller\<close> and the id \<open>3\<close>, and so does
  the label \<open>gebaeudeA\<close>, in which a building is named before a hyphen: only the part
  after the last hyphen is matched. With a category \<open>Keller\<close> and its area \<open>3\<close> in the
  dataset, that is this area (\<open>getBereichByBezeichnung_Keller_3_example\<close>).
\<close>

theorem getBereichByBezeichnung_Keller_3:
  "getBereichByBezeichnung P d (asc ''Keller 3'') =
     getBereichByTypNameUndId P d (asc ''Keller'') 3 \<and>
   getBereichByBezeichnung P d gebaeudeA = getBereichByTypNameUndId P d (asc ''Keller'') 3"
  by (simp add: getBereichByBezeichnung_def Let_def label_Keller_3 label_gebaeudeA)

section \<open>Folding and unfolding\<close>

text \<open>
  C8. A logical line without line breaks (no \<open>CR\<close>, no \<open>LF\<close>) that is folded into a
  first physical line and any number of continuation lines, each starting with one
  space or tab, with \<open>LF\<close> or \<open>CR LF\<close> between the physical lines, unfolds to exactly
  that one logical line.
\<close>

theorem unfoldIcsLines_folded:
  assumes "\<forall>c\<in>set first. c \<noteq> LF \<and> c \<noteq> CR"
    and "\<forall>(w, p)\<in>set conts. (w = SP \<or> w = TAB) \<and> (\<forall>c\<in>set p. c \<noteq> LF \<and> c \<noteq> CR)"
    and "nl = [LF] \<or> nl = [CR, LF]"
  shows "unfoldIcsLines (folded nl first conts) = [first @ concat (map snd conts)]"
proof -
  have a1: "CR \<notin> set first" "LF \<notin> set first" using assms(1) by auto
  have a2: "\<forall>(w, p)\<in>set conts. (w = SP \<or> w = TAB) \<and> CR \<notin> set p"
    "\<forall>(w, p)\<in>set conts. (w = SP \<or> w = TAB) \<and> LF \<notin> set p"
    "\<forall>(w, p)\<in>set conts. w = SP \<or> w = TAB"
    using assms(2) by auto
  have "unfoldIcsLines (folded nl first conts) =
        foldl unfoldStep [] (splitFrom (lit [LF]) [] (folded [LF] first conts))"
    by (simp add: unfoldIcsLines_def split_def splitMatches_def
        replace_CRLF_folded [OF a1(1) a2(1) assms(3)])
  also have "\<dots> = foldl unfoldStep [] (first # map (\<lambda>(w, p). w # p) conts)"
    using split_LF_folded [OF a1(2) a2(2), of "[]"] by simp
  also have "\<dots> = foldl unfoldStep [first] (map (\<lambda>(w, p). w # p) conts)"
    by (simp add: unfoldStep_def)
  also have "\<dots> = [first @ concat (map snd conts)]"
    by (rule unfold_continuations [OF a2(3)])
  finally show ?thesis .
qed

theorem unfoldIcsLines_folded_witness:
  "unfoldIcsLines (folded [CR, LF] (asc ''DESCRIPTION:* Bring t'') [(SP, asc ''rash''), (TAB, asc '' now'')]) =
     [asc ''DESCRIPTION:* Bring t'' @ concat (map snd [(SP, asc ''rash''), (TAB, asc '' now'')])]"
proof -
  have a: "\<forall>c\<in>set (asc ''DESCRIPTION:* Bring t''). c \<noteq> LF \<and> c \<noteq> CR" by code_simp
  have b: "\<forall>(w, p)\<in>set [(SP, asc ''rash''), (TAB, asc '' now'')].
     (w = SP \<or> w = TAB) \<and> (\<forall>c\<in>set p. c \<noteq> LF \<and> c \<noteq> CR)" by code_simp
  show ?thesis
    using unfoldIcsLines_folded [OF a b, of "[CR, LF]"] by simp
qed

text \<open>
  C5, for the configurations it holds for. Whatever the input and the configuration,
  the normalised hint has at most 20 code units and none of the characters
  \<open>U+0000\<close> to \<open>U+001F\<close> and \<open>U+007F\<close>, which are the control characters the code
  replaces. It holds no occurrence of a configured status symbol that is not empty and
  has no space (\<open>U+0020\<close>) in it, as is the case of the four default symbols.
\<close>

theorem normalizeHinweis_bounds:
  "length (normalizeHinweis P cfg h) \<le> 20 \<and>
   (\<forall>c\<in>set (normalizeHinweis P cfg h). \<not> isControl c) \<and>
   (\<forall>s\<in>set (statusSymbolStrings cfg).
      s \<noteq> [] \<and> SP \<notin> set s \<longrightarrow> \<not> includes_str (normalizeHinweis P cfg h) s)"
proof (intro conjI ballI impI)
  show "length (normalizeHinweis P cfg h) \<le> 20" by (rule normalizeHinweis_length)
next
  fix c assume "c \<in> set (normalizeHinweis P cfg h)"
  then have "c = SP \<or> c \<in> set (replaceMatches (charClass isControl) [SP] (normalizeNFKC P h))"
    using normalizeHinweis_set by blast
  then show "\<not> isControl c"
    using SP_not_control by (auto simp: replace_charClass split: if_splits)
next
  fix s assume s: "s \<in> set (statusSymbolStrings cfg)" "s \<noteq> [] \<and> SP \<notin> set s"
  have ne: "\<forall>t\<in>set (getSteuerzeichenTokens cfg). t \<noteq> []"
    by (simp add: set_getSteuerzeichenTokens)
  have "s \<in> set (getSteuerzeichenTokens cfg)"
    using s by (simp add: set_getSteuerzeichenTokens)
  then have "\<not> sublist s (fold removeToken (getSteuerzeichenTokens cfg)
           (replaceMatches (charClass isControl) [SP] (normalizeNFKC P h)))"
    using fold_removeToken_removes [OF ne] s(2) by blast
  then have "\<not> sublist s (normalizeHinweis P cfg h)"
    using normalizeHinweis_sublist_n1 s(2) by blast
  then show "\<not> includes_str (normalizeHinweis P cfg h) s"
    by (simp add: includes_sublist)
qed

theorem normalizeHinweis_bounds_witness:
  "length (normalizeHinweis asciiPlatform defaultModifierConfig sampleHinweis) \<le> 20 \<and>
   \<not> includes_str (normalizeHinweis asciiPlatform defaultModifierConfig sampleHinweis) (asc ''*'') \<and>
   \<not> includes_str (normalizeHinweis asciiPlatform defaultModifierConfig sampleHinweis) [0x2E, 0x2713]"
proof -
  have a: "asc ''*'' \<in> set (statusSymbolStrings defaultModifierConfig)"
    "[0x2E, 0x2713] \<in> set (statusSymbolStrings defaultModifierConfig)"
    "asc ''*'' \<noteq> [] \<and> SP \<notin> set (asc ''*'')"
    "[0x2E, 0x2713] \<noteq> [] \<and> SP \<notin> set [0x2E, 0x2713 :: jschar]"
    by code_simp+
  show ?thesis
    using normalizeHinweis_bounds [of asciiPlatform defaultModifierConfig sampleHinweis] a
    by blast
qed

text \<open>
  C5 as stated fails for a status symbol with a space in it: the tokens are replaced by
  spaces and runs of white space collapse to one space, either of which can put the
  symbol together. With the check box \<open>[ ]\<close> as a symbol, the hint \<open>[  ]\<close> normalises to
  \<open>[ ]\<close>.
\<close>

theorem normalizeHinweis_checkbox:
  "normalizeHinweis asciiPlatform checkboxModifierConfig (asc ''[  ]'') = asc ''[ ]'' \<and>
   asc ''[ ]'' \<in> set (statusSymbolStrings checkboxModifierConfig) \<and>
   includes_str (normalizeHinweis asciiPlatform checkboxModifierConfig (asc ''[  ]'')) (asc ''[ ]'')"
  by code_simp

section \<open>Normalising twice\<close>



section \<open>The round trip of the subtask list\<close>



section \<open>Escaping and unescaping\<close>

text \<open>
  C7. \<open>escapeIcsText\<close> followed by \<open>unescapeIcsText\<close> is meant to give the value
  back. It does not on a backslash followed by the letter \<open>n\<close>: escaping doubles the
  backslash, and the first pass of \<open>unescapeIcsText\<close> reads the second backslash and
  the \<open>n\<close> as an escaped line feed before the last pass can halve the pair. The
  value read back is a backslash followed by a line feed. A value that holds no backslash
  followed by \<open>n\<close> or \<open>N\<close> is read back as it was written (\<open>unescape_escape\<close>).
\<close>

theorem escape_unescape_backslash_n:
  "escapeIcsText [BSL, 0x6E] = [BSL, BSL, 0x6E] \<and>
   unescapeIcsText (escapeIcsText [BSL, 0x6E]) = [BSL, LF] \<and>
   unescapeIcsText (escapeIcsText [BSL, 0x6E]) \<noteq> [BSL, 0x6E]"
  by (simp add: escapeIcsText_def unescapeIcsText_def lit_def startsWith_def backslashN_def
      BSL_def LF_def)

end
